theory Spec2Isabelle
  imports Complex_Main
begin

section \<open>The phone account ledger: a shallow embedding\<close>

text \<open>
  The program is one Python file: an interactive ledger of phone-number accounts.
  Every operation prompts on the console, so the model gives each operation the list
  of the lines the operator will type (one element per call of \<open>input\<close> or
  \<open>getpass\<close>, in the order of the prompts) and returns the lines left over.
  Running out of lines is Python's \<open>EOFError\<close>.

  The text typed at the prompts is modelled with one \<^typ>\<open>char\<close> per code point, for
  code points below 256. \<open>validate_phone\<close> is modelled on every Python string: it takes
  the list of the code points, and the operations pass it the code points of what was
  typed.
\<close>

subsection \<open>Python strings\<close>

definition is_space :: "char \<Rightarrow> bool" where
  \<comment> \<open>\<open>str.isspace\<close> on one code point below 256\<close>
  "is_space c = (let n = (of_char c :: nat) in
     (9 \<le> n \<and> n \<le> 13) \<or> (28 \<le> n \<and> n \<le> 32) \<or> n = 133 \<or> n = 160)"

definition strip :: "string \<Rightarrow> string" where
  "strip s = rev (dropWhile is_space (rev (dropWhile is_space s)))"

definition lower_char :: "char \<Rightarrow> char" where
  "lower_char c = (let n = (of_char c :: nat) in
     if (65 \<le> n \<and> n \<le> 90) \<or> (192 \<le> n \<and> n \<le> 222 \<and> n \<noteq> 215)
     then char_of (n + 32) else c)"

definition lower :: "string \<Rightarrow> string" where
  "lower s = map lower_char s"

definition codes :: "string \<Rightarrow> nat list" where
  \<comment> \<open>the code points of a text\<close>
  "codes t = map of_char t"

definition decimal_zeros :: "nat list" where
  \<comment> \<open>the digit zero of every script that has decimal digits (Unicode 14.0, the database
      of Python 3.11); the digits of a script are ten consecutive code points\<close>
  "decimal_zeros =
     [48, 1632, 1776, 1984, 2406, 2534, 2662, 2790, 2918, 3046, 3174, 3302, 3430, 3558,
      3664, 3792, 3872, 4160, 4240, 6112, 6160, 6470, 6608, 6784, 6800, 6992, 7088, 7232,
      7248, 42528, 43216, 43264, 43472, 43504, 43600, 44016, 65296, 66720, 68912, 69734,
      69872, 69942, 70096, 70384, 70736, 70864, 71248, 71360, 71472, 71904, 72016, 72784,
      73040, 73120, 92768, 92864, 93008, 120782, 120792, 120802, 120812, 120822, 123200,
      123632, 125264, 130032]"

definition is_decimal :: "nat \<Rightarrow> bool" where
  \<comment> \<open>the class \<open>\d\<close> of \<open>re\<close> on a str pattern: any Unicode decimal digit (category Nd),
      so also the Arabic-Indic and the full-width digits\<close>
  "is_decimal c = list_ex (\<lambda>z. z \<le> c \<and> c \<le> z + 9) decimal_zeros"

definition ascii_digit :: "char \<Rightarrow> bool" where
  "ascii_digit c = (let n = (of_char c :: nat) in 48 \<le> n \<and> n \<le> 57)"

definition isdigit_char :: "char \<Rightarrow> bool" where
  \<comment> \<open>\<open>str.isdigit\<close> on one code point below 256: also superscript 1, 2, 3\<close>
  "isdigit_char c = (let n = (of_char c :: nat) in
     (48 \<le> n \<and> n \<le> 57) \<or> n = 178 \<or> n = 179 \<or> n = 185)"

definition isdigit :: "string \<Rightarrow> bool" where
  "isdigit s = (s \<noteq> [] \<and> list_all isdigit_char s)"

subsection \<open>Python floats\<close>

text \<open>
  A float is an IEEE 754 binary64 value: a finite rational, an infinity or NaN.
  The sign of zero is not modelled (\<open>-0.0 == 0.0\<close>, and the ledger only compares,
  adds and subtracts). \<open>fl\<close> rounds a rational to the nearest binary64 value, ties
  to even, with gradual underflow, and overflows to an infinity.
\<close>

datatype pyfloat = Fin rat | PInf | NInf | NaN

definition pow2 :: "int \<Rightarrow> rat" where
  "pow2 e = (if 0 \<le> e then 2 ^ nat e else 1 / 2 ^ nat (- e))"

function bitlen :: "int \<Rightarrow> int" where
  \<comment> \<open>the number of binary digits of a positive integer\<close>
  "bitlen n = (if n \<le> 0 then 0 else 1 + bitlen (n div 2))"
  by pat_completeness auto
termination
  by (relation "measure nat") auto

definition ilog2 :: "rat \<Rightarrow> int" where
  \<comment> \<open>\<open>\<lfloor>log\<^sub>2 q\<rfloor>\<close> for \<open>q > 0\<close>\<close>
  "ilog2 q = (if 1 \<le> q then bitlen \<lfloor>q\<rfloor> - 1 else - bitlen (\<lceil>1 / q\<rceil> - 1))"

definition round_half_even :: "rat \<Rightarrow> int" where
  "round_half_even x = (let f = \<lfloor>x\<rfloor>; r = x - of_int f in
     if r < 1 / 2 then f else if 1 / 2 < r then f + 1
     else if even f then f else f + 1)"

definition fl :: "rat \<Rightarrow> pyfloat" where
  "fl q = (if q = 0 then Fin 0 else
     let e = max (ilog2 \<bar>q\<bar>) (- 1022);
         u = pow2 (e - 52);
         v = of_int (round_half_even (q / u)) * u
     in if pow2 1024 \<le> \<bar>v\<bar> then (if 0 < q then PInf else NInf) else Fin v)"

fun flt :: "pyfloat \<Rightarrow> pyfloat \<Rightarrow> bool" where
  "flt NaN _ = False"
| "flt _ NaN = False"
| "flt (Fin a) (Fin b) = (a < b)"
| "flt (Fin a) PInf = True"
| "flt (Fin a) NInf = False"
| "flt PInf _ = False"
| "flt NInf NInf = False"
| "flt NInf _ = True"

fun feq :: "pyfloat \<Rightarrow> pyfloat \<Rightarrow> bool" where
  "feq NaN _ = False"
| "feq _ NaN = False"
| "feq a b = (a = b)"

definition fle :: "pyfloat \<Rightarrow> pyfloat \<Rightarrow> bool" where
  "fle a b = (flt a b \<or> feq a b)"

definition fge :: "pyfloat \<Rightarrow> pyfloat \<Rightarrow> bool" where
  "fge a b = fle b a"

fun fneg :: "pyfloat \<Rightarrow> pyfloat" where
  "fneg (Fin a) = Fin (- a)"
| "fneg PInf = NInf"
| "fneg NInf = PInf"
| "fneg NaN = NaN"

fun fadd :: "pyfloat \<Rightarrow> pyfloat \<Rightarrow> pyfloat" where
  "fadd NaN _ = NaN"
| "fadd _ NaN = NaN"
| "fadd (Fin a) (Fin b) = fl (a + b)"
| "fadd PInf NInf = NaN"
| "fadd NInf PInf = NaN"
| "fadd PInf _ = PInf"
| "fadd NInf _ = NInf"
| "fadd (Fin a) b = b"

definition fsub :: "pyfloat \<Rightarrow> pyfloat \<Rightarrow> pyfloat" where
  "fsub a b = fadd a (fneg b)"


subsection \<open>Config, SecurityManager\<close>

definition MAX_AUTH_ATTEMPTS :: nat where
  "MAX_AUTH_ATTEMPTS = 3"

definition MIN_ANSWER_LENGTH :: nat where
  "MIN_ANSWER_LENGTH = 2"

definition DEFAULT_REGISTRATION_BONUS :: pyfloat where
  "DEFAULT_REGISTRATION_BONUS = Fin 50"

definition handle_back_choice :: "string \<Rightarrow> bool" where
  "handle_back_choice choice = (choice = ''0'')"

definition validate_phone :: "nat list \<Rightarrow> bool" where
  \<comment> \<open>\<open>re.match\<close> of \<open>^1[3-9]\d{9}$\<close> on the code points of the string: the character 1
      (code point 49), one of 3 to 9 (51 to 57), nine decimal digits, and then \<open>$\<close>, which
      matches at the end of the string and also just before a newline (10) that ends it\<close>
  "validate_phone phone = (case phone of
       c1 # c2 # cs \<Rightarrow>
         c1 = 49 \<and> 51 \<le> c2 \<and> c2 \<le> 57 \<and>
         length (take 9 cs) = 9 \<and> list_all is_decimal (take 9 cs) \<and>
         (drop 9 cs = [] \<or> drop 9 cs = [10])
     | _ \<Rightarrow> False)"

definition validate_password :: "string \<Rightarrow> bool" where
  "validate_password pw = (length pw = 4 \<and> isdigit pw)"

text \<open>
  What the program takes from Python's library is a parameter of the model:
  \<open>sha256\<close> is \<open>hashlib.sha256(s.encode()).hexdigest()\<close>, \<open>float_of\<close> and \<open>int_of\<close> are
  \<open>float(s)\<close> and \<open>int(s)\<close> (\<open>None\<close> for \<open>ValueError\<close>), \<open>clock n\<close> is what the
  \<open>n\<close>-th call of \<open>datetime.now()\<close> returns, in microseconds since the first instant
  a \<open>datetime\<close> can hold, and \<open>save_ok n\<close> tells whether the \<open>n\<close>-th call of
  \<open>FileStorageManager.save_data\<close> manages to write the file.
\<close>

record pyenv =
  sha256 :: "string \<Rightarrow> string"
  float_of :: "string \<Rightarrow> pyfloat option"
  int_of :: "string \<Rightarrow> int option"
  clock :: "nat \<Rightarrow> int"
  save_ok :: "nat \<Rightarrow> bool"
  github_enabled :: bool

definition hash_password :: "pyenv \<Rightarrow> string \<Rightarrow> string" where
  "hash_password env pw = sha256 env pw"

definition hash_answer :: "pyenv \<Rightarrow> string \<Rightarrow> string" where
  "hash_answer env answer = sha256 env (lower (strip answer))"

definition verify_password :: "pyenv \<Rightarrow> string \<Rightarrow> string option \<Rightarrow> bool" where
  "verify_password env input_password stored_hash = (Some (hash_password env input_password) = stored_hash)"

definition verify_answer :: "pyenv \<Rightarrow> string \<Rightarrow> string option \<Rightarrow> bool" where
  "verify_answer env input_answer stored_hash = (Some (hash_answer env input_answer) = stored_hash)"

subsection \<open>TimeManager\<close>

datatype pyerr = EOFError | OverflowError | KeyError

definition day_us :: int where
  "day_us = 86400000000"

definition max_time :: int where
  \<comment> \<open>\<open>datetime.max\<close>, the last microsecond of the year 9999\<close>
  "max_time = 3652059 * 86400000000 - 1"

definition calculate_expiry_time :: "int \<Rightarrow> int \<Rightarrow> pyerr + int" where
  \<comment> \<open>\<open>timedelta(days=d)\<close> refuses more than 999999999 days, and the sum must be a
      \<open>datetime\<close>; both raise \<open>OverflowError\<close>\<close>
  "calculate_expiry_time now valid_days =
     (if 999999999 < \<bar>valid_days\<bar> then Inl OverflowError
      else if now + valid_days * day_us < 0 \<or> max_time < now + valid_days * day_us
      then Inl OverflowError
      else Inr (now + valid_days * day_us))"

definition is_expired :: "int \<Rightarrow> int \<Rightarrow> bool" where
  "is_expired now expiry = (expiry < now)"

definition get_remaining_days :: "int \<Rightarrow> int \<Rightarrow> int" where
  \<comment> \<open>\<open>timedelta.days\<close> is the floor of the difference in days\<close>
  "get_remaining_days now expiry = max 0 ((expiry - now) div day_us)"

subsection \<open>Accounts, the store, the state of the process\<close>

datatype status = Unset | Active | Expired

datatype question =
  FavouriteColour | BirthCity | PrimarySchoolName | PetName
  | MotherSurname | FavouriteFilm | FirstSchool | BestFriendName

definition common_questions :: "question list" where
  "common_questions = [FavouriteColour, BirthCity, PrimarySchoolName, PetName,
     MotherSurname, FavouriteFilm, FirstSchool, BestFriendName]"

text \<open>
  An account is the dict that \<open>register_phone\<close> creates: seven keys from the start,
  four more (\<open>None\<close> while the key is absent) once the validity period and the
  security information are set.
\<close>

record account =
  balance :: pyfloat
  last_four :: string
  password :: "string option"
  security_question :: "question option"
  security_answer :: "string option"
  status :: status
  registration_bonus :: pyfloat
  valid_days :: "int option"
  created_at :: "int option"
  expiry_time :: "int option"
  last_modified :: "int option"

type_synonym store = "(string \<times> account) list"

definition lookup :: "store \<Rightarrow> string \<Rightarrow> account option" where
  "lookup st phone = map_of st phone"

definition dict_set :: "string \<Rightarrow> account \<Rightarrow> store \<Rightarrow> store" where
  \<comment> \<open>\<open>d[k] = v\<close>: a new key goes to the end, a known key keeps its place\<close>
  "dict_set phone a st =
     (if phone \<in> fst ` set st then map (\<lambda>(k, v). if k = phone then (k, a) else (k, v)) st
      else st @ [(phone, a)])"

definition dict_del :: "string \<Rightarrow> store \<Rightarrow> store" where
  "dict_del phone st = filter (\<lambda>(k, v). k \<noteq> phone) st"

definition modify :: "string \<Rightarrow> (account \<Rightarrow> account) \<Rightarrow> store \<Rightarrow> store" where
  \<comment> \<open>\<open>d[k][field] = v\<close>, for a key that is present\<close>
  "modify phone f st = map (\<lambda>(k, v). if k = phone then (k, f v) else (k, v)) st"

datatype remaining = AlreadyExpired | Hours int | Days int

datatype notice =
  InvalidPhoneFormat | PhoneAlreadyRegistered | TailInUse string string
  | BonusNegative | BonusZeroWarning | BonusNotNumber
  | DaysNotPositive | DaysNotNumber
  | PasswordNotFourDigits | PasswordMismatch
  | ChoiceOutOfRange | ChoiceNotNumber
  | AnswerTooShort | AnswerMismatch
  | WrongPassword nat | WrongPasswordFinal
  | WrongAnswer nat | WrongAnswerFinal
  | PhoneNotRegistered | TailNotFourDigits | TailNotFound
  | RechargeNotPositive | RechargeNotNumber
  | DeductNotPositive | DeductNotNumber
  | InsufficientBalance pyfloat

datatype msg =
  CancelledRegister | CancelledBonus | CancelledValidDays | CancelledSecurity
  | ValidDaysSet int | SecuritySet | SecuritySaveFailed | AccountCreated pyfloat
  | AccountExpired | StatusNormal
  | CancelledOperation | AuthOk | TooManyWrongPasswords | TooManyWrongAnswers | AuthFailed
  | CancelledReset | ResetOk | ResetSaveFailed | CancelledResetPassword
  | CancelledRecharge | RechargeOk string pyfloat | RechargeSaveFailed
  | CancelledDeduct | DeductOk string pyfloat | DeductSaveFailed
  | CancelledQuery | BalanceInfo string pyfloat "(status \<times> remaining) option"

text \<open>
  The state: the dict \<open>AccountManager.accounts\<close>, the snapshot last written to the data
  file, how often \<open>save_data\<close>, \<open>sync_to_github\<close> and \<open>datetime.now\<close> have been called,
  and the refusals printed so far. A write that fails is taken to leave the file as it
  was; the backups are not modelled.
\<close>

record sys =
  accounts :: store
  disk :: store
  saves :: nat
  pushes :: nat
  ticks :: nat
  printed :: "notice list"

datatype 'a res = Ret 'a "string list" sys | Raise pyerr

definition notify :: "notice \<Rightarrow> sys \<Rightarrow> sys" where
  "notify n s = s\<lparr>printed := printed s @ [n]\<rparr>"

definition now :: "pyenv \<Rightarrow> sys \<Rightarrow> int \<times> sys" where
  "now env s = (clock env (ticks s), s\<lparr>ticks := Suc (ticks s)\<rparr>)"

definition save_data :: "pyenv \<Rightarrow> sys \<Rightarrow> bool \<times> sys" where
  "save_data env s =
     (save_ok env (saves s),
      s\<lparr>saves := Suc (saves s),
        disk := (if save_ok env (saves s) then accounts s else disk s)\<rparr>)"

definition sync_to_github :: "pyenv \<Rightarrow> sys \<Rightarrow> sys" where
  "sync_to_github env s = (if github_enabled env then s\<lparr>pushes := Suc (pushes s)\<rparr> else s)"

definition update :: "string \<Rightarrow> (account \<Rightarrow> account) \<Rightarrow> sys \<Rightarrow> sys" where
  "update phone f s = s\<lparr>accounts := modify phone f (accounts s)\<rparr>"


subsection \<open>AccountManager\<close>

text \<open>
  Each function takes the lines still to be typed and the state, and returns its Python
  result with the lines left and the new state, or raises. Where Python returns
  \<open>(success, message)\<close> the result is a pair of a \<^typ>\<open>bool\<close> and a \<^typ>\<open>msg\<close>.
\<close>

fun set_registration_bonus :: "pyenv \<Rightarrow> string list \<Rightarrow> sys \<Rightarrow> (msg + pyfloat) res" where
  "set_registration_bonus env [] s = Raise EOFError"
| "set_registration_bonus env (l # ls) s =
     (let bonus_input = strip l in
      if handle_back_choice bonus_input then Ret (Inl CancelledBonus) ls s
      else if bonus_input = [] then Ret (Inr DEFAULT_REGISTRATION_BONUS) ls s
      else (case float_of env bonus_input of
          None \<Rightarrow> set_registration_bonus env ls (notify BonusNotNumber s)
        | Some bonus_amount \<Rightarrow>
            if flt bonus_amount (Fin 0)
            then set_registration_bonus env ls (notify BonusNegative s)
            else if feq bonus_amount (Fin 0)
            then Ret (Inr bonus_amount) ls (notify BonusZeroWarning s)
            else Ret (Inr bonus_amount) ls s))"

fun set_valid_days :: "pyenv \<Rightarrow> string \<Rightarrow> string list \<Rightarrow> sys \<Rightarrow> (bool \<times> msg) res" where
  "set_valid_days env phone [] s = Raise EOFError"
| "set_valid_days env phone (l # ls) s =
     (let valid_days_input = strip l in
      if handle_back_choice valid_days_input then Ret (False, CancelledValidDays) ls s
      else case int_of env valid_days_input of
          None \<Rightarrow> set_valid_days env phone ls (notify DaysNotNumber s)
        | Some d \<Rightarrow>
            if d \<le> 0 then set_valid_days env phone ls (notify DaysNotPositive s)
            else
              let s1 = update phone (\<lambda>a. a\<lparr>valid_days := Some d\<rparr>) s;
                  (t1, s2) = now env s1;
                  s3 = update phone (\<lambda>a. a\<lparr>created_at := Some t1\<rparr>) s2;
                  (t2, s4) = now env s3
              in (case calculate_expiry_time t2 d of
                    Inl e \<Rightarrow> Raise e
                  | Inr x \<Rightarrow>
                      Ret (True, ValidDaysSet d) ls
                        (update phone (\<lambda>a. a\<lparr>status := Active\<rparr>)
                          (update phone (\<lambda>a. a\<lparr>expiry_time := Some x\<rparr>) s4))))"

text \<open>The three prompting loops of \<open>set_password_and_security\<close>, in their order.\<close>

fun set_password_loop :: "pyenv \<Rightarrow> string \<Rightarrow> string list \<Rightarrow> sys \<Rightarrow> bool res" where
  "set_password_loop env phone [] s = Raise EOFError"
| "set_password_loop env phone (pw # ls) s =
     (if handle_back_choice pw then Ret False ls s
      else if \<not> validate_password pw
      then set_password_loop env phone ls (notify PasswordNotFourDigits s)
      else case ls of
          [] \<Rightarrow> Raise EOFError
        | confirm_password # ls' \<Rightarrow>
            if pw \<noteq> confirm_password
            then set_password_loop env phone ls' (notify PasswordMismatch s)
            else Ret True ls'
                   (update phone (\<lambda>a. a\<lparr>password := Some (hash_password env pw)\<rparr>) s))"

fun choose_question_loop :: "pyenv \<Rightarrow> string list \<Rightarrow> sys \<Rightarrow> question option res" where
  "choose_question_loop env [] s = Raise EOFError"
| "choose_question_loop env (l # ls) s =
     (let choice = strip l in
      if handle_back_choice choice then Ret None ls s
      else case int_of env choice of
          None \<Rightarrow> choose_question_loop env ls (notify ChoiceNotNumber s)
        | Some n \<Rightarrow>
            if 1 \<le> n \<and> n \<le> 8 then Ret (Some (common_questions ! nat (n - 1))) ls s
            else choose_question_loop env ls (notify ChoiceOutOfRange s))"

fun set_answer_loop :: "pyenv \<Rightarrow> string \<Rightarrow> question \<Rightarrow> string list \<Rightarrow> sys \<Rightarrow> bool res" where
  "set_answer_loop env phone q [] s = Raise EOFError"
| "set_answer_loop env phone q (l # ls) s =
     (let answer = strip l in
      if handle_back_choice answer then Ret False ls s
      else if length answer < MIN_ANSWER_LENGTH
      then set_answer_loop env phone q ls (notify AnswerTooShort s)
      else case ls of
          [] \<Rightarrow> Raise EOFError
        | c # ls' \<Rightarrow>
            let confirm_answer = strip c in
            if lower answer \<noteq> lower confirm_answer
            then set_answer_loop env phone q ls' (notify AnswerMismatch s)
            else Ret True ls'
                   (update phone (\<lambda>a. a\<lparr>security_answer := Some (hash_answer env answer)\<rparr>)
                     (update phone (\<lambda>a. a\<lparr>security_question := Some q\<rparr>) s)))"

definition set_password_and_security ::
    "pyenv \<Rightarrow> string \<Rightarrow> string list \<Rightarrow> sys \<Rightarrow> (bool \<times> msg) res" where
  "set_password_and_security env phone ls s =
     (case set_password_loop env phone ls s of
        Raise e \<Rightarrow> Raise e
      | Ret False ls1 s1 \<Rightarrow> Ret (False, CancelledSecurity) ls1 s1
      | Ret True ls1 s1 \<Rightarrow>
          (case choose_question_loop env ls1 s1 of
             Raise e \<Rightarrow> Raise e
           | Ret None ls2 s2 \<Rightarrow> Ret (False, CancelledSecurity) ls2 s2
           | Ret (Some q) ls2 s2 \<Rightarrow>
               (case set_answer_loop env phone q ls2 s2 of
                  Raise e \<Rightarrow> Raise e
                | Ret False ls3 s3 \<Rightarrow> Ret (False, CancelledSecurity) ls3 s3
                | Ret True ls3 s3 \<Rightarrow>
                    let (t, s4) = now env s3;
                        s5 = update phone (\<lambda>a. a\<lparr>last_modified := Some t\<rparr>) s4;
                        (ok, s6) = save_data env s5
                    in if ok then Ret (True, SecuritySet) ls3 s6
                       else Ret (False, SecuritySaveFailed) ls3 s6)))"

definition check_account_status ::
    "pyenv \<Rightarrow> string \<Rightarrow> string list \<Rightarrow> sys \<Rightarrow> (bool \<times> msg) res" where
  "check_account_status env phone ls s =
     (case lookup (accounts s) phone of
        None \<Rightarrow> Raise KeyError
      | Some info \<Rightarrow>
          if status info = Expired then Ret (False, AccountExpired) ls s
          else (case expiry_time info of
              None \<Rightarrow> Raise KeyError
            | Some x \<Rightarrow>
                let (t, s1) = now env s in
                if is_expired t x
                then let s2 = update phone (\<lambda>a. a\<lparr>status := Expired\<rparr>) s1;
                         (ok, s3) = save_data env s2
                     in Ret (False, AccountExpired) ls s3
                else Ret (True, StatusNormal) ls s1))"

fun password_attempts ::
    "pyenv \<Rightarrow> string \<Rightarrow> nat \<Rightarrow> string list \<Rightarrow> sys \<Rightarrow> (bool \<times> msg) res" where
  "password_attempts env phone 0 ls s = Ret (False, AuthFailed) ls s"
| "password_attempts env phone (Suc n) [] s = Raise EOFError"
| "password_attempts env phone (Suc n) (pw # ls) s =
     (if handle_back_choice pw then Ret (False, CancelledOperation) ls s
      else case lookup (accounts s) phone of
          None \<Rightarrow> Raise KeyError
        | Some info \<Rightarrow>
            if verify_password env pw (password info) then Ret (True, AuthOk) ls s
            else if 0 < n then password_attempts env phone n ls (notify (WrongPassword n) s)
            else Ret (False, TooManyWrongPasswords) ls (notify WrongPasswordFinal s))"

definition authenticate_with_password ::
    "pyenv \<Rightarrow> string \<Rightarrow> string list \<Rightarrow> sys \<Rightarrow> (bool \<times> msg) res" where
  "authenticate_with_password env phone ls s =
     (case check_account_status env phone ls s of
        Raise e \<Rightarrow> Raise e
      | Ret (status_ok, status_msg) ls1 s1 \<Rightarrow>
          if \<not> status_ok then Ret (False, status_msg) ls1 s1
          else password_attempts env phone MAX_AUTH_ATTEMPTS ls1 s1)"

fun answer_attempts ::
    "pyenv \<Rightarrow> string \<Rightarrow> nat \<Rightarrow> string list \<Rightarrow> sys \<Rightarrow> (bool \<times> msg) res" where
  "answer_attempts env phone 0 ls s = Ret (False, AuthFailed) ls s"
| "answer_attempts env phone (Suc n) [] s = Raise EOFError"
| "answer_attempts env phone (Suc n) (l # ls) s =
     (let answer = strip l in
      if handle_back_choice answer then Ret (False, CancelledOperation) ls s
      else case lookup (accounts s) phone of
          None \<Rightarrow> Raise KeyError
        | Some info \<Rightarrow>
            if verify_answer env answer (security_answer info) then Ret (True, AuthOk) ls s
            else if 0 < n then answer_attempts env phone n ls (notify (WrongAnswer n) s)
            else Ret (False, TooManyWrongAnswers) ls (notify WrongAnswerFinal s))"

definition authenticate_with_security_question ::
    "pyenv \<Rightarrow> string \<Rightarrow> string list \<Rightarrow> sys \<Rightarrow> (bool \<times> msg) res" where
  "authenticate_with_security_question env phone ls s =
     (case lookup (accounts s) phone of
        None \<Rightarrow> Raise KeyError
      | Some info \<Rightarrow> answer_attempts env phone MAX_AUTH_ATTEMPTS ls s)"

fun new_password_loop :: "pyenv \<Rightarrow> string \<Rightarrow> string list \<Rightarrow> sys \<Rightarrow> (bool \<times> msg) res" where
  "new_password_loop env phone [] s = Raise EOFError"
| "new_password_loop env phone (new_pw # ls) s =
     (if handle_back_choice new_pw then Ret (False, CancelledReset) ls s
      else if \<not> validate_password new_pw
      then new_password_loop env phone ls (notify PasswordNotFourDigits s)
      else case ls of
          [] \<Rightarrow> Raise EOFError
        | confirm_password # ls' \<Rightarrow>
            if new_pw \<noteq> confirm_password
            then new_password_loop env phone ls' (notify PasswordMismatch s)
            else
              let s1 = update phone (\<lambda>a. a\<lparr>password := Some (hash_password env new_pw)\<rparr>) s;
                  (t, s2) = now env s1;
                  s3 = update phone (\<lambda>a. a\<lparr>last_modified := Some t\<rparr>) s2;
                  (ok, s4) = save_data env s3
              in if ok then Ret (True, ResetOk) ls' s4 else Ret (False, ResetSaveFailed) ls' s4)"

definition reset_password ::
    "pyenv \<Rightarrow> string \<Rightarrow> string list \<Rightarrow> sys \<Rightarrow> (bool \<times> msg) res" where
  \<comment> \<open>\<open>AccountManager.reset_password\<close>\<close>
  "reset_password env phone ls s =
     (case authenticate_with_security_question env phone ls s of
        Raise e \<Rightarrow> Raise e
      | Ret (auth_success, auth_message) ls1 s1 \<Rightarrow>
          if \<not> auth_success then Ret (False, auth_message) ls1 s1
          else new_password_loop env phone ls1 s1)"


subsection \<open>TimeManager.format\_remaining\_time\<close>

definition format_remaining_time :: "pyenv \<Rightarrow> int \<Rightarrow> sys \<Rightarrow> remaining \<times> sys" where
  \<comment> \<open>each of \<open>is_expired\<close>, \<open>get_remaining_days\<close> and the function itself reads the clock\<close>
  "format_remaining_time env x s =
     (let (t1, s1) = now env s in
      if is_expired t1 x then (AlreadyExpired, s1)
      else
        let (t2, s2) = now env s1;
            remaining_days = get_remaining_days t2 x
        in if remaining_days = 0
           then let (t3, s3) = now env s2
                in (Hours (max 0 ((((x - t3) mod day_us) div 1000000) div 3600)), s3)
           else (Days remaining_days, s2))"

subsection \<open>PhoneAccountSystem\<close>

definition find_tail :: "store \<Rightarrow> string \<Rightarrow> string option" where
  \<comment> \<open>the first phone, in the order of the dict, whose \<open>last_four\<close> is the given tail\<close>
  "find_tail st tail = map_option fst (find (\<lambda>(k, info). last_four info = tail) st)"

definition find_account :: "sys \<Rightarrow> string \<Rightarrow> notice + string" where
  "find_account s identifier =
     (if validate_phone (codes identifier)
      then (if lookup (accounts s) identifier \<noteq> None then Inr identifier
            else Inl PhoneNotRegistered)
      else if length identifier \<noteq> 4 \<or> \<not> isdigit identifier then Inl TailNotFourDigits
      else (case find_tail (accounts s) identifier of
              Some phone \<Rightarrow> Inr phone
            | None \<Rightarrow> Inl TailNotFound))"

definition last4 :: "string \<Rightarrow> string" where
  \<comment> \<open>\<open>phone[-4:]\<close>\<close>
  "last4 phone = drop (length phone - 4) phone"

definition new_account :: "string \<Rightarrow> pyfloat \<Rightarrow> account" where
  "new_account phone bonus_amount =
     \<lparr>balance = bonus_amount, last_four = last4 phone, password = None,
      security_question = None, security_answer = None, status = Unset,
      registration_bonus = bonus_amount, valid_days = None, created_at = None,
      expiry_time = None, last_modified = None\<rparr>"

definition delete_account :: "string \<Rightarrow> sys \<Rightarrow> sys" where
  "delete_account phone s = s\<lparr>accounts := dict_del phone (accounts s)\<rparr>"

definition register_account ::
    "pyenv \<Rightarrow> string \<Rightarrow> pyfloat \<Rightarrow> string list \<Rightarrow> sys \<Rightarrow> (bool \<times> msg) res" where
  \<comment> \<open>\<open>register_phone\<close> from the creation of the account on\<close>
  "register_account env phone bonus_amount ls s =
     (let s1 = s\<lparr>accounts := dict_set phone (new_account phone bonus_amount) (accounts s)\<rparr>
      in case set_valid_days env phone ls s1 of
           Raise e \<Rightarrow> Raise e
         | Ret (success, message) ls2 s2 \<Rightarrow>
             if \<not> success then Ret (success, message) ls2 (delete_account phone s2)
             else (case set_password_and_security env phone ls2 s2 of
                     Raise e \<Rightarrow> Raise e
                   | Ret (success, message) ls3 s3 \<Rightarrow>
                       if \<not> success then Ret (success, message) ls3 (delete_account phone s3)
                       else Ret (True, AccountCreated bonus_amount) ls3 (sync_to_github env s3)))"

fun register_phone :: "pyenv \<Rightarrow> string list \<Rightarrow> sys \<Rightarrow> (bool \<times> msg) res" where
  "register_phone env [] s = Raise EOFError"
| "register_phone env (l # ls) s =
     (let phone = strip l in
      if handle_back_choice phone then Ret (False, CancelledRegister) ls s
      else if \<not> validate_phone (codes phone)
      then register_phone env ls (notify InvalidPhoneFormat s)
      else if lookup (accounts s) phone \<noteq> None
      then register_phone env ls (notify PhoneAlreadyRegistered s)
      else (case find_tail (accounts s) (last4 phone) of
              Some existing_phone \<Rightarrow>
                register_phone env ls (notify (TailInUse (last4 phone) existing_phone) s)
            | None \<Rightarrow>
                (case set_registration_bonus env ls s of
                   Raise e \<Rightarrow> Raise e
                 | Ret (Inl bonus_result) ls1 s1 \<Rightarrow> Ret (False, bonus_result) ls1 s1
                 | Ret (Inr bonus_amount) ls1 s1 \<Rightarrow>
                     register_account env phone bonus_amount ls1 s1)))"

fun recharge_amount :: "pyenv \<Rightarrow> string \<Rightarrow> string list \<Rightarrow> sys \<Rightarrow> (bool \<times> msg) res" where
  \<comment> \<open>the inner loop of \<open>recharge\<close>\<close>
  "recharge_amount env phone [] s = Raise EOFError"
| "recharge_amount env phone (l # ls) s =
     (let amount = strip l in
      if handle_back_choice amount then Ret (False, CancelledRecharge) ls s
      else (case float_of env amount of
          None \<Rightarrow> recharge_amount env phone ls (notify RechargeNotNumber s)
        | Some amount_float \<Rightarrow>
            if fle amount_float (Fin 0)
            then recharge_amount env phone ls (notify RechargeNotPositive s)
            else (case lookup (accounts s) phone of
                None \<Rightarrow> Raise KeyError
              | Some info \<Rightarrow>
                  let old_balance = balance info;
                      s1 = update phone (\<lambda>a. a\<lparr>balance := fadd (balance a) amount_float\<rparr>) s;
                      (t, s2) = now env s1;
                      s3 = update phone (\<lambda>a. a\<lparr>last_modified := Some t\<rparr>) s2;
                      (ok, s4) = save_data env s3
                  in if ok
                     then Ret (True, RechargeOk phone (fadd old_balance amount_float)) ls
                            (sync_to_github env s4)
                     else Ret (False, RechargeSaveFailed) ls
                            (update phone (\<lambda>a. a\<lparr>balance := old_balance\<rparr>) s4))))"

fun recharge :: "pyenv \<Rightarrow> string list \<Rightarrow> sys \<Rightarrow> (bool \<times> msg) res" where
  "recharge env [] s = Raise EOFError"
| "recharge env (l # ls) s =
     (let identifier = strip l in
      if handle_back_choice identifier then Ret (False, CancelledRecharge) ls s
      else (case find_account s identifier of
          Inl message \<Rightarrow> recharge env ls (notify message s)
        | Inr phone \<Rightarrow>
            (case authenticate_with_password env phone ls s of
               Raise e \<Rightarrow> Raise e
             | Ret (auth_success, auth_message) ls1 s1 \<Rightarrow>
                 if \<not> auth_success then Ret (False, auth_message) ls1 s1
                 else recharge_amount env phone ls1 s1)))"

fun deduct_amount :: "pyenv \<Rightarrow> string \<Rightarrow> string list \<Rightarrow> sys \<Rightarrow> (bool \<times> msg) res" where
  \<comment> \<open>the inner loop of \<open>deduct\<close>\<close>
  "deduct_amount env phone [] s = Raise EOFError"
| "deduct_amount env phone (l # ls) s =
     (let amount = strip l in
      if handle_back_choice amount then Ret (False, CancelledDeduct) ls s
      else (case float_of env amount of
          None \<Rightarrow> deduct_amount env phone ls (notify DeductNotNumber s)
        | Some amount_float \<Rightarrow>
            if fle amount_float (Fin 0)
            then deduct_amount env phone ls (notify DeductNotPositive s)
            else (case lookup (accounts s) phone of
                None \<Rightarrow> Raise KeyError
              | Some info \<Rightarrow>
                  if flt (balance info) amount_float
                  then deduct_amount env phone ls (notify (InsufficientBalance (balance info)) s)
                  else
                    let old_balance = balance info;
                        s1 = update phone (\<lambda>a. a\<lparr>balance := fsub (balance a) amount_float\<rparr>) s;
                        (t, s2) = now env s1;
                        s3 = update phone (\<lambda>a. a\<lparr>last_modified := Some t\<rparr>) s2;
                        (ok, s4) = save_data env s3
                    in if ok
                       then Ret (True, DeductOk phone (fsub old_balance amount_float)) ls
                              (sync_to_github env s4)
                       else Ret (False, DeductSaveFailed) ls
                              (update phone (\<lambda>a. a\<lparr>balance := old_balance\<rparr>) s4))))"

fun deduct :: "pyenv \<Rightarrow> string list \<Rightarrow> sys \<Rightarrow> (bool \<times> msg) res" where
  "deduct env [] s = Raise EOFError"
| "deduct env (l # ls) s =
     (let identifier = strip l in
      if handle_back_choice identifier then Ret (False, CancelledDeduct) ls s
      else (case find_account s identifier of
          Inl message \<Rightarrow> deduct env ls (notify message s)
        | Inr phone \<Rightarrow>
            (case authenticate_with_password env phone ls s of
               Raise e \<Rightarrow> Raise e
             | Ret (auth_success, auth_message) ls1 s1 \<Rightarrow>
                 if \<not> auth_success then Ret (False, auth_message) ls1 s1
                 else deduct_amount env phone ls1 s1)))"

fun system_reset_password :: "pyenv \<Rightarrow> string list \<Rightarrow> sys \<Rightarrow> (bool \<times> msg) res" where
  \<comment> \<open>\<open>PhoneAccountSystem.reset_password\<close>\<close>
  "system_reset_password env [] s = Raise EOFError"
| "system_reset_password env (l # ls) s =
     (let identifier = strip l in
      if handle_back_choice identifier then Ret (False, CancelledResetPassword) ls s
      else (case find_account s identifier of
          Inl message \<Rightarrow> system_reset_password env ls (notify message s)
        | Inr phone \<Rightarrow>
            (case reset_password env phone ls s of
               Raise e \<Rightarrow> Raise e
             | Ret (success, message) ls1 s1 \<Rightarrow>
                 Ret (success, message) ls1 (if success then sync_to_github env s1 else s1))))"

fun get_balance :: "pyenv \<Rightarrow> string list \<Rightarrow> sys \<Rightarrow> (bool \<times> msg) res" where
  "get_balance env [] s = Raise EOFError"
| "get_balance env (l # ls) s =
     (let identifier = strip l in
      if handle_back_choice identifier then Ret (False, CancelledQuery) ls s
      else (case find_account s identifier of
          Inl message \<Rightarrow> get_balance env ls (notify message s)
        | Inr phone \<Rightarrow>
            (case lookup (accounts s) phone of
               None \<Rightarrow> Raise KeyError
             | Some info \<Rightarrow>
                 (case expiry_time info of
                    None \<Rightarrow> Ret (True, BalanceInfo phone (balance info) None) ls s
                  | Some x \<Rightarrow>
                      let (remaining_time, s1) = format_remaining_time env x s
                      in Ret (True, BalanceInfo phone (balance info)
                                (Some (status info, remaining_time))) ls s1))))"

record summary =
  sum_phone :: string
  sum_last_four :: string
  sum_balance :: pyfloat
  sum_status :: status
  sum_remaining :: "remaining option"
  sum_bonus :: pyfloat
  has_password :: bool
  has_security :: bool

fun list_accounts :: "pyenv \<Rightarrow> store \<Rightarrow> sys \<Rightarrow> summary list \<times> sys" where
  \<comment> \<open>the loop of \<open>list_all_accounts\<close>: one line per account, in the order of the dict\<close>
  "list_accounts env [] s = ([], s)"
| "list_accounts env ((phone, info) # rest) s =
     (let (remaining_time, s1) =
            (case expiry_time info of
               None \<Rightarrow> (None, s)
             | Some x \<Rightarrow>
                 if status info \<noteq> Expired
                 then (let (r, s') = format_remaining_time env x s in (Some r, s'))
                 else (None, s));
          line = \<lparr>sum_phone = phone, sum_last_four = last_four info,
                  sum_balance = balance info, sum_status = status info,
                  sum_remaining = remaining_time, sum_bonus = registration_bonus info,
                  has_password = (password info \<noteq> None \<and> password info \<noteq> Some []),
                  has_security = (security_question info \<noteq> None)\<rparr>;
          (lines, s2) = list_accounts env rest s1
      in (line # lines, s2))"

definition list_all_accounts :: "pyenv \<Rightarrow> sys \<Rightarrow> summary list \<times> sys" where
  "list_all_accounts env s = list_accounts env (accounts s) s"

datatype expiry_line = LineExpired string | LineExpiring string remaining

record expiry_report =
  expired_count :: nat
  expiring_count :: nat
  report_lines :: "expiry_line list"

fun scan_expiry :: "pyenv \<Rightarrow> store \<Rightarrow> expiry_report \<Rightarrow> sys \<Rightarrow> expiry_report \<times> sys" where
  \<comment> \<open>the loop of \<open>check_expired_accounts\<close>\<close>
  "scan_expiry env [] r s = (r, s)"
| "scan_expiry env ((phone, info) # rest) r s =
     (case expiry_time info of
        None \<Rightarrow> scan_expiry env rest r s
      | Some x \<Rightarrow>
          let (t1, s1) = now env s in
          if is_expired t1 x
          then scan_expiry env rest
                 (r\<lparr>expired_count := expired_count r + 1,
                    report_lines := report_lines r @ [LineExpired phone]\<rparr>) s1
          else
            let (t2, s2) = now env s1;
                remaining_days = get_remaining_days t2 x
            in if remaining_days \<le> 3
               then let (remaining_time, s3) = format_remaining_time env x s2
                    in scan_expiry env rest
                         (r\<lparr>expiring_count := expiring_count r + 1,
                            report_lines := report_lines r @ [LineExpiring phone remaining_time]\<rparr>)
                         s3
               else scan_expiry env rest r s2)"

definition check_expired_accounts :: "pyenv \<Rightarrow> sys \<Rightarrow> expiry_report \<times> sys" where
  "check_expired_accounts env s =
     scan_expiry env (accounts s) \<lparr>expired_count = 0, expiring_count = 0, report_lines = []\<rparr> s"

subsection \<open>The menu\<close>

datatype shown =
  Outcome "bool \<times> msg" | Listing "summary list" | ExpiryReport expiry_report | InvalidChoice

definition lift_outcome :: "(bool \<times> msg) res \<Rightarrow> shown res" where
  "lift_outcome r = (case r of Raise e \<Rightarrow> Raise e | Ret v ls s \<Rightarrow> Ret (Outcome v) ls s)"

definition menu_step :: "pyenv \<Rightarrow> string \<Rightarrow> string list \<Rightarrow> sys \<Rightarrow> shown res" where
  \<comment> \<open>one turn of the loop of \<open>main\<close> on the choices 1 to 7, the operations of the ledger\<close>
  "menu_step env choice ls s =
     (if choice = ''1'' then lift_outcome (register_phone env ls s)
      else if choice = ''2'' then lift_outcome (recharge env ls s)
      else if choice = ''3'' then lift_outcome (deduct env ls s)
      else if choice = ''4'' then lift_outcome (get_balance env ls s)
      else if choice = ''5'' then lift_outcome (system_reset_password env ls s)
      else if choice = ''6'' then (let (r, s') = list_all_accounts env s in Ret (Listing r) ls s')
      else if choice = ''7''
      then (let (r, s') = check_expired_accounts env s in Ret (ExpiryReport r) ls s')
      else Ret InvalidChoice ls s)"

subsection \<open>The claims' vocabulary\<close>

definition phone_shape :: "nat list \<Rightarrow> bool" where
  \<comment> \<open>the specification's reading of the pattern: eleven characters, all decimal digits,
      the first a 1 and the second from 3 to 9\<close>
  "phone_shape p = (length p = 11 \<and> list_all is_decimal p \<and> p ! 0 = 49 \<and>
     51 \<le> p ! 1 \<and> p ! 1 \<le> 57)"

definition ret_val :: "'a res \<Rightarrow> 'a option" where
  "ret_val r = (case r of Ret v ls s \<Rightarrow> Some v | Raise e \<Rightarrow> None)"

definition balance_of :: "sys \<Rightarrow> string \<Rightarrow> pyfloat option" where
  "balance_of s phone = map_option balance (lookup (accounts s) phone)"


definition wrong_password :: "pyenv \<Rightarrow> account \<Rightarrow> string \<Rightarrow> bool" where
  \<comment> \<open>a line typed at the password prompt that is an attempt, and a wrong one\<close>
  "wrong_password env info p = (\<not> handle_back_choice p \<and> \<not> verify_password env p (password info))"

definition right_password :: "pyenv \<Rightarrow> account \<Rightarrow> string \<Rightarrow> bool" where
  "right_password env info p = (\<not> handle_back_choice p \<and> verify_password env p (password info))"

definition wrong_answer :: "pyenv \<Rightarrow> account \<Rightarrow> string \<Rightarrow> bool" where
  "wrong_answer env info l =
     (\<not> handle_back_choice (strip l) \<and> \<not> verify_answer env (strip l) (security_answer info))"

definition right_answer :: "pyenv \<Rightarrow> account \<Rightarrow> string \<Rightarrow> bool" where
  "right_answer env info l =
     (\<not> handle_back_choice (strip l) \<and> verify_answer env (strip l) (security_answer info))"

definition status_passes :: "pyenv \<Rightarrow> sys \<Rightarrow> account \<Rightarrow> bool" where
  \<comment> \<open>\<open>check_account_status\<close> lets the account through at the next reading of the clock\<close>
  "status_passes env s info =
     (status info \<noteq> Expired \<and>
      (case expiry_time info of None \<Rightarrow> False | Some x \<Rightarrow> \<not> is_expired (clock env (ticks s)) x))"

definition quiet :: "sys \<Rightarrow> sys \<Rightarrow> bool" where
  \<comment> \<open>no account changed, nothing was saved\<close>
  "quiet s s' = (accounts s' = accounts s \<and> disk s' = disk s \<and> saves s' = saves s)"

definition account_after :: "'a res \<Rightarrow> string \<Rightarrow> account option" where
  \<comment> \<open>the account a phone has in memory when the operation has returned\<close>
  "account_after r phone = (case r of Ret v ls s \<Rightarrow> lookup (accounts s) phone | Raise e \<Rightarrow> None)"

definition balance_after :: "'a res \<Rightarrow> string \<Rightarrow> pyfloat option" where
  "balance_after r phone = map_option balance (account_after r phone)"

definition recharge_then_deduct :: "pyenv \<Rightarrow> string \<Rightarrow> string \<Rightarrow> sys \<Rightarrow> sys option" where
  \<comment> \<open>a successful recharge by the amount typed as \<open>l\<close>, then a successful deduction of
      the amount typed as \<open>l\<close> again; \<open>None\<close> when either does not succeed\<close>
  "recharge_then_deduct env phone l s =
     (case recharge_amount env phone [l] s of
        Ret (True, m) ls s1 \<Rightarrow>
          (case deduct_amount env phone [l] s1 of
             Ret (True, m') ls' s2 \<Rightarrow> Some s2
           | _ \<Rightarrow> None)
      | _ \<Rightarrow> None)"

definition round_trip_balance :: "pyenv \<Rightarrow> string \<Rightarrow> string \<Rightarrow> sys \<Rightarrow> pyfloat option" where
  \<comment> \<open>the balance that the two of them leave\<close>
  "round_trip_balance env phone l s =
     (case recharge_then_deduct env phone l s of
        None \<Rightarrow> None
      | Some s2 \<Rightarrow> balance_of s2 phone)"

definition is_float :: "rat \<Rightarrow> bool" where
  \<comment> \<open>the rational is a binary64 value: rounding leaves it as it is\<close>
  "is_float q = (fl q = Fin q)"

definition expires_by_clock_only :: "pyenv \<Rightarrow> sys \<Rightarrow> sys \<Rightarrow> bool" where
  \<comment> \<open>an account that was not expired before and is expired after has an expiry time
      that a reading of the clock taken in between had passed\<close>
  "expires_by_clock_only env s s' =
     (\<forall>phone a a'. lookup (accounts s) phone = Some a \<and> lookup (accounts s') phone = Some a' \<and>
        status a \<noteq> Expired \<and> status a' = Expired \<longrightarrow>
        (\<exists>x n. expiry_time a = Some x \<and> ticks s \<le> n \<and> n < ticks s' \<and> is_expired (clock env n) x))"

definition confined :: "string \<Rightarrow> sys \<Rightarrow> sys \<Rightarrow> bool" where
  \<comment> \<open>only the account of the phone may have changed, and nothing was saved\<close>
  "confined phone s s' =
     (dict_del phone (accounts s') = dict_del phone (accounts s) \<and> disk s' = disk s \<and>
      saves s' = saves s \<and> ticks s \<le> ticks s')"

definition steady :: "pyenv \<Rightarrow> sys \<Rightarrow> sys \<Rightarrow> bool" where
  \<comment> \<open>every account is still there with the expiry time it had, and with the status it
      had unless a reading of the clock taken in between had passed that expiry time\<close>
  "steady env s s' =
     (ticks s \<le> ticks s' \<and>
      (\<forall>phone a. lookup (accounts s) phone = Some a \<longrightarrow>
         (\<exists>a'. lookup (accounts s') phone = Some a' \<and> expiry_time a' = expiry_time a \<and>
            (status a' = status a \<or>
             (status a' = Expired \<and>
              (\<exists>x n. expiry_time a = Some x \<and> ticks s \<le> n \<and> n < ticks s' \<and>
                 is_expired (clock env n) x))))))"

subsection \<open>A concrete library and concrete states, for the examples\<close>

text \<open>
  The theorems below hold for every library. The examples run the program with this one:
  \<open>float_plain\<close> is \<open>float\<close> on the literals \<open>nan\<close>, \<open>inf\<close> and unsigned decimals
  such as \<open>0.2\<close> (correctly rounded, as Python does), \<open>int_plain\<close> is \<open>int\<close> on unsigned
  digit strings, and the stand-in for the hash only prefixes its argument. They are
  applied to such strings only.
\<close>

definition decimal_value :: "string \<Rightarrow> nat" where
  "decimal_value ds = foldl (\<lambda>a c. 10 * a + (of_char c - 48)) 0 ds"

definition float_plain :: "string \<Rightarrow> pyfloat option" where
  "float_plain t =
     (if lower t = ''nan'' then Some NaN
      else if lower t = ''inf'' then Some PInf
      else
        let ip = takeWhile ascii_digit t; r = dropWhile ascii_digit t in
        if r = [] then (if ip = [] then None else Some (fl (of_nat (decimal_value ip))))
        else if hd r = CHR ''.'' \<and> list_all ascii_digit (tl r) \<and> (ip \<noteq> [] \<or> tl r \<noteq> [])
        then Some (fl (of_nat (decimal_value (ip @ tl r)) / 10 ^ length (tl r)))
        else None)"

definition int_plain :: "string \<Rightarrow> int option" where
  "int_plain t = (if t \<noteq> [] \<and> list_all ascii_digit t then Some (int (decimal_value t)) else None)"

definition plain_env :: "bool \<Rightarrow> pyenv" where
  \<comment> \<open>the clock starts in the year 2026 and advances by one microsecond per reading;
      every save succeeds, or every save fails\<close>
  "plain_env ok =
     \<lparr>sha256 = (\<lambda>t. ''sha256:'' @ t), float_of = float_plain, int_of = int_plain,
      clock = (\<lambda>n. 63900000000000000 + int n), save_ok = (\<lambda>n. ok), github_enabled = False\<rparr>"

definition frozen_env :: "int \<Rightarrow> pyenv" where
  \<comment> \<open>as \<open>plain_env True\<close>, with a clock that stands still\<close>
  "frozen_env t = (plain_env True)\<lparr>clock := (\<lambda>n. t)\<rparr>"

definition empty_sys :: sys where
  "empty_sys = \<lparr>accounts = [], disk = [], saves = 0, pushes = 0, ticks = 0, printed = []\<rparr>"

definition sample_account :: "pyfloat \<Rightarrow> status \<Rightarrow> int \<Rightarrow> account" where
  \<comment> \<open>an account as a finished registration leaves it: password 1234, answer blue\<close>
  "sample_account b st x =
     \<lparr>balance = b, last_four = ''1234'', password = Some ''sha256:1234'',
      security_question = Some FavouriteColour, security_answer = Some ''sha256:blue'',
      status = st, registration_bonus = Fin 50, valid_days = Some 30,
      created_at = Some (x - 30 * day_us), expiry_time = Some x,
      last_modified = Some (x - 30 * day_us)\<rparr>"

definition sample_sys :: "pyfloat \<Rightarrow> status \<Rightarrow> int \<Rightarrow> sys" where
  "sample_sys b st x = empty_sys\<lparr>accounts := [(''13800001234'', sample_account b st x)],
     disk := [(''13800001234'', sample_account b st x)]\<rparr>"


section \<open>Properties\<close>

subsection \<open>Phone numbers\<close>

lemma strip_last_not_space: "strip l = q @ [c] \<Longrightarrow> \<not> is_space c"
proof -
  assume a: "strip l = q @ [c]"
  let ?d = "dropWhile is_space (rev (dropWhile is_space l))"
  from a have "rev ?d = q @ [c]" by (simp add: strip_def)
  then have "?d = c # rev q" by (metis rev_rev_ident rev_append rev.simps(2) rev.simps(1) append_Nil)
  then show ?thesis by (metis hd_dropWhile list.sel(1) list.distinct(1))
qed

lemma is_decimal_ascii: "48 \<le> c \<Longrightarrow> c \<le> 57 \<Longrightarrow> is_decimal c"
  by (simp add: is_decimal_def decimal_zeros_def)

lemma validate_phone_iff:
  "validate_phone p \<longleftrightarrow> phone_shape p \<or> (\<exists>q. p = q @ [10] \<and> phone_shape q)"
proof (cases p)
  case Nil
  then show ?thesis by (simp add: validate_phone_def phone_shape_def)
next
  case (Cons c1 r)
  show ?thesis
  proof (cases r)
    case Nil
    with Cons show ?thesis by (auto simp add: validate_phone_def phone_shape_def)
  next
    case (Cons c2 cs)
    note r = this
    have d1: "is_decimal 49" by (simp add: is_decimal_ascii)
    have d2: "51 \<le> c2 \<and> c2 \<le> 57 \<Longrightarrow> is_decimal c2"
      by (simp add: is_decimal_ascii)
    show ?thesis
    proof
      assume v: "validate_phone p"
      with \<open>p = c1 # r\<close> r have c: "c1 = 49" "51 \<le> c2" "c2 \<le> 57"
        "9 \<le> length cs" "list_all is_decimal (take 9 cs)" "drop 9 cs = [] \<or> drop 9 cs = [10]"
        by (auto simp add: validate_phone_def min_def split: if_splits)
      from c(6) show "phone_shape p \<or> (\<exists>q. p = q @ [10] \<and> phone_shape q)"
      proof
        assume "drop 9 cs = []"
        with c(4) have "length cs = 9" by simp
        with c \<open>p = c1 # r\<close> r d1 d2 show ?thesis by (simp add: phone_shape_def)
      next
        assume e: "drop 9 cs = [10]"
        then have cs: "cs = take 9 cs @ [10]" by (metis append_take_drop_id)
        have l: "length (take 9 cs) = 9" using c(4) by simp
        have "phone_shape (c1 # c2 # take 9 cs)"
          using c d1 d2 l by (simp add: phone_shape_def)
        moreover have "p = (c1 # c2 # take 9 cs) @ [10]"
          using cs \<open>p = c1 # r\<close> r by simp
        ultimately show ?thesis by blast
      qed
    next
      assume "phone_shape p \<or> (\<exists>q. p = q @ [10] \<and> phone_shape q)"
      then show "validate_phone p"
      proof
        assume "phone_shape p"
        with \<open>p = c1 # r\<close> r show ?thesis
          by (simp add: validate_phone_def phone_shape_def)
      next
        assume "\<exists>q. p = q @ [10] \<and> phone_shape q"
        then obtain q where q: "p = q @ [10]" "phone_shape q" by blast
        from q(2) have lq: "length q = 11" by (simp add: phone_shape_def)
        then obtain q1 q2 qs where qq: "q = q1 # q2 # qs" "length qs = 9"
          by (cases q; cases "tl q") auto
        with q \<open>p = c1 # r\<close> r have "c1 = q1" "c2 = q2" "cs = qs @ [10]" by auto
        with q(2) qq \<open>p = c1 # r\<close> r show ?thesis
          by (simp add: validate_phone_def phone_shape_def)
      qed
    qed
  qed
qed

lemma validate_phone_stripped:
  "validate_phone (codes (strip l)) \<longleftrightarrow> phone_shape (codes (strip l))"
proof -
  have "codes (strip l) \<noteq> q @ [10]" for q
  proof
    assume e: "codes (strip l) = q @ [10]"
    then have "strip l \<noteq> []" by (auto simp add: codes_def)
    then obtain t c where t: "strip l = t @ [c]" by (cases "strip l" rule: rev_cases) auto
    with e have "(of_char c :: nat) = 10" by (simp add: codes_def)
    then have "is_space c" by (simp add: is_space_def)
    with strip_last_not_space [OF t] show False by simp
  qed
  then show ?thesis using validate_phone_iff [of "codes (strip l)"] by blast
qed

lemma validate_phone_other_scripts:
  "validate_phone [49, 51, 65304, 65296, 65296, 65296, 65296, 65297, 65298, 65299, 65300] \<and>
   validate_phone [49, 51, 56, 1632, 1632, 1632, 1632, 1633, 1634, 1635, 1636] \<and>
   \<not> validate_phone [65297, 51, 56, 48, 48, 48, 48, 49, 50, 51, 52]"
  by (simp add: validate_phone_def is_decimal_def decimal_zeros_def)

text \<open>
  C8 does not hold of the code. The pattern is anchored at both ends, but the \<open>$\<close> of
  \<open>re\<close> also matches just before a newline that ends the string: \<open>validate_phone\<close>
  returns true for the twelve characters of a phone number followed by a newline, a
  string that is not of the eleven-character shape. By \<open>validate_phone_iff\<close> above this
  is the only way in which the function departs from that shape, and by
  \<open>validate_phone_stripped\<close> it does not happen on the stripped lines that the operations
  pass.
\<close>

theorem validate_phone_accepts_trailing_newline:
  "validate_phone (codes ''13800001234'' @ [10]) \<and>
   length (codes ''13800001234'' @ [10]) = 12 \<and>
   \<not> phone_shape (codes ''13800001234'' @ [10]) \<and>
   phone_shape (codes ''13800001234'')"
  by (simp add: validate_phone_def phone_shape_def codes_def is_decimal_ascii)

subsection \<open>Bookkeeping\<close>

lemma lookup_modify:
  "lookup (modify phone f st) k = (if k = phone then map_option f (lookup st phone) else lookup st k)"
  by (induction st) (auto simp add: lookup_def modify_def)

lemma notify_fields:
  "accounts (notify n s) = accounts s" "disk (notify n s) = disk s" "saves (notify n s) = saves s"
  "ticks (notify n s) = ticks s" "pushes (notify n s) = pushes s"
  "printed (notify n s) = printed s @ [n]"
  by (simp_all add: notify_def)

lemma update_fields:
  "accounts (update phone f s) = modify phone f (accounts s)" "disk (update phone f s) = disk s"
  "saves (update phone f s) = saves s" "ticks (update phone f s) = ticks s"
  "pushes (update phone f s) = pushes s" "printed (update phone f s) = printed s"
  by (simp_all add: update_def)

lemma sync_fields:
  "accounts (sync_to_github env s) = accounts s" "disk (sync_to_github env s) = disk s"
  "saves (sync_to_github env s) = saves s" "ticks (sync_to_github env s) = ticks s"
  "printed (sync_to_github env s) = printed s"
  by (simp_all add: sync_to_github_def)

lemma quiet_notify: "quiet (notify n s) s' \<Longrightarrow> quiet s s'"
  by (simp add: quiet_def notify_fields)

subsection \<open>Evaluating the examples\<close>

lemma floor_rat_numeral_div: "\<lfloor>numeral a / numeral b :: rat\<rfloor> = numeral a div numeral b"
  by (metis floor_divide_of_int_eq of_int_numeral)

lemma floor_rat_neg_numeral_div: "\<lfloor>- (numeral a / numeral b) :: rat\<rfloor> = - numeral a div numeral b"
  by (metis floor_divide_of_int_eq of_int_numeral of_int_minus minus_divide_left)

lemma ceiling_rat_numeral_div: "\<lceil>numeral a / numeral b :: rat\<rceil> = - (- numeral a div numeral b)"
  unfolding ceiling_def by (simp add: floor_rat_neg_numeral_div)

lemmas fl_eval = fl_def ilog2_def pow2_def round_half_even_def Let_def
  floor_rat_numeral_div floor_rat_neg_numeral_div ceiling_rat_numeral_div

lemmas text_eval = strip_def is_space_def lower_def lower_char_def ascii_digit_def decimal_value_def
  handle_back_choice_def isdigit_def isdigit_char_def

lemmas plain_eval = plain_env_def float_plain_def int_plain_def

lemma sample_lookup:
  "lookup (accounts (sample_sys b st x)) ''13800001234'' = Some (sample_account b st x)"
  by (simp add: sample_sys_def lookup_def empty_sys_def)

lemma float_plain_200: "float_of (plain_env ok) (strip ''200'') = Some (Fin 200)"
  by (simp add: plain_eval text_eval) (simp add: fl_eval)

lemma float_plain_50: "float_of (plain_env ok) (strip ''50'') = Some (Fin 50)"
  by (simp add: plain_eval text_eval) (simp add: fl_eval)

lemma fsub_50_50: "fsub (Fin 50) (Fin 50) = Fin 0"
  by (simp add: fsub_def fl_def)

subsection \<open>Deduction against the balance\<close>

lemma positive_of_greater:
  "flt b a \<Longrightarrow> flt (Fin 0) a \<or> fle (Fin 0) b \<Longrightarrow> \<not> fle a (Fin 0)"
  by (cases a; cases b) (auto simp add: fle_def)

lemma positive_of_equal:
  "feq a b \<Longrightarrow> flt (Fin 0) a \<Longrightarrow> \<not> fle a (Fin 0) \<and> \<not> flt b a"
  by (cases a; cases b) (auto simp add: fle_def)

lemma deduct_amount_rejects:
  assumes "lookup (accounts s) phone = Some info"
    and "float_of env (strip l) = Some a" and "\<not> handle_back_choice (strip l)"
    and "flt (balance info) a" and "flt (Fin 0) a \<or> fle (Fin 0) (balance info)"
  shows "deduct_amount env phone (l # ls) s =
           deduct_amount env phone ls (notify (InsufficientBalance (balance info)) s)"
  using assms positive_of_greater [of "balance info" a] by (simp add: Let_def)

lemma deduct_amount_accepts:
  assumes "lookup (accounts s) phone = Some info"
    and "float_of env (strip l) = Some a" and "\<not> handle_back_choice (strip l)"
    and "\<not> fle a (Fin 0)" and "\<not> flt (balance info) a"
  shows "\<exists>s'. deduct_amount env phone (l # ls) s =
           Ret (save_ok env (saves s),
                if save_ok env (saves s) then DeductOk phone (fsub (balance info) a)
                else DeductSaveFailed) ls s' \<and>
           saves s' = Suc (saves s) \<and>
           lookup (accounts s') phone =
             Some (info\<lparr>balance := (if save_ok env (saves s) then fsub (balance info) a else balance info),
                        last_modified := Some (clock env (ticks s))\<rparr>) \<and>
           (save_ok env (saves s) \<longrightarrow> disk s' = accounts s')"
  using assms
  by (simp add: Let_def now_def save_data_def update_fields sync_fields lookup_modify update_def sync_to_github_def)

text \<open>
  C3: when the amount typed at the deduction prompt is greater than the balance (the
  amount being positive, as it always is when the balance is not negative), the attempt
  is refused with the insufficient-balance notice and the prompt comes again: no account
  changes, and nothing is saved for that attempt. An amount equal to the balance is
  accepted: the balance is reduced by it and the save is attempted.
\<close>

theorem deduct_insufficient_balance:
  assumes "lookup (accounts s) phone = Some info"
    and "float_of env (strip l) = Some a" and "\<not> handle_back_choice (strip l)"
  shows "(flt (balance info) a \<and> (flt (Fin 0) a \<or> fle (Fin 0) (balance info)) \<longrightarrow>
            (\<exists>s'. deduct_amount env phone (l # ls) s = deduct_amount env phone ls s' \<and>
                  printed s' = printed s @ [InsufficientBalance (balance info)] \<and>
                  accounts s' = accounts s \<and> disk s' = disk s \<and> saves s' = saves s)) \<and>
         (feq a (balance info) \<and> flt (Fin 0) a \<longrightarrow>
            (\<exists>s'. deduct_amount env phone (l # ls) s =
                    Ret (save_ok env (saves s),
                         if save_ok env (saves s) then DeductOk phone (fsub (balance info) a)
                         else DeductSaveFailed) ls s' \<and>
                  saves s' = Suc (saves s) \<and>
                  (save_ok env (saves s) \<longrightarrow>
                     balance_of s' phone = Some (fsub (balance info) a) \<and> disk s' = accounts s')))"
proof (intro conjI impI)
  assume g: "flt (balance info) a \<and> (flt (Fin 0) a \<or> fle (Fin 0) (balance info))"
  let ?s = "notify (InsufficientBalance (balance info)) s"
  have "deduct_amount env phone (l # ls) s = deduct_amount env phone ls ?s"
    using deduct_amount_rejects [OF assms] g by blast
  then show "\<exists>s'. deduct_amount env phone (l # ls) s = deduct_amount env phone ls s' \<and>
                  printed s' = printed s @ [InsufficientBalance (balance info)] \<and>
                  accounts s' = accounts s \<and> disk s' = disk s \<and> saves s' = saves s"
    using notify_fields by blast
next
  assume e: "feq a (balance info) \<and> flt (Fin 0) a"
  then have "\<not> fle a (Fin 0)" "\<not> flt (balance info) a"
    using positive_of_equal by blast+
  from deduct_amount_accepts [OF assms this, of ls]
  show "\<exists>s'. deduct_amount env phone (l # ls) s =
                Ret (save_ok env (saves s),
                     if save_ok env (saves s) then DeductOk phone (fsub (balance info) a)
                     else DeductSaveFailed) ls s' \<and>
              saves s' = Suc (saves s) \<and>
              (save_ok env (saves s) \<longrightarrow>
                 balance_of s' phone = Some (fsub (balance info) a) \<and> disk s' = accounts s')"
    by (auto simp add: balance_of_def)
qed

theorem deduct_insufficient_balance_witness:
  "(\<exists>s'. deduct_amount (plain_env True) ''13800001234'' [''200'', ''50''] (sample_sys (Fin 50) Active 0) =
           deduct_amount (plain_env True) ''13800001234'' [''50''] s' \<and>
         printed s' = [InsufficientBalance (Fin 50)] \<and>
         accounts s' = accounts (sample_sys (Fin 50) Active 0) \<and> saves s' = 0) \<and>
   (\<exists>s'. deduct_amount (plain_env True) ''13800001234'' [''50''] (sample_sys (Fin 50) Active 0) =
           Ret (True, DeductOk ''13800001234'' (Fin 0)) [] s' \<and>
         balance_of s' ''13800001234'' = Some (Fin 0))"
proof -
  have nb: "\<not> handle_back_choice (strip ''200'')" "\<not> handle_back_choice (strip ''50'')"
    by (simp_all add: text_eval)
  have b: "balance (sample_account (Fin 50) Active 0) = Fin 50"
    by (simp add: sample_account_def)
  have ok: "save_ok (plain_env True) n" for n
    by (simp add: plain_env_def)
  have p: "printed (sample_sys (Fin 50) Active 0) = []" "saves (sample_sys (Fin 50) Active 0) = 0"
    by (simp_all add: sample_sys_def empty_sys_def)
  have g: "flt (Fin 50) (Fin 200)" "feq (Fin 50) (Fin 50)" "flt (Fin 0) (Fin 50)" "flt (Fin 0) (Fin 200)"
    by simp_all
  have A: "\<exists>s'. deduct_amount (plain_env True) ''13800001234'' [''200'', ''50''] (sample_sys (Fin 50) Active 0) =
           deduct_amount (plain_env True) ''13800001234'' [''50''] s' \<and>
         printed s' = [InsufficientBalance (Fin 50)] \<and>
         accounts s' = accounts (sample_sys (Fin 50) Active 0) \<and> saves s' = 0"
    using deduct_insufficient_balance
        [OF sample_lookup [of "Fin 50" Active 0] float_plain_200 [of True] nb(1), where ls = "[''50'']"]
    by (simp add: b ok p g del: deduct_amount.simps) blast
  have B: "\<exists>s'. deduct_amount (plain_env True) ''13800001234'' [''50''] (sample_sys (Fin 50) Active 0) =
           Ret (True, DeductOk ''13800001234'' (Fin 0)) [] s' \<and>
         balance_of s' ''13800001234'' = Some (Fin 0)"
    using deduct_insufficient_balance
        [OF sample_lookup [of "Fin 50" Active 0] float_plain_50 [of True] nb(2), where ls = "[]"]
    by (simp add: b ok p g fsub_50_50 del: deduct_amount.simps) blast
  from A B show ?thesis by blast
qed

subsection \<open>Attempts at a credential\<close>

lemma password_attempts_wrong:
  assumes "lookup (accounts s) phone = Some info" and "list_all (wrong_password env info) ws"
    and "length ws < n"
  shows "\<exists>s'. quiet s s' \<and>
           password_attempts env phone n (ws @ ls) s = password_attempts env phone (n - length ws) ls s'"
  using assms
proof (induction ws arbitrary: n s)
  case Nil
  then show ?case by (auto simp add: quiet_def)
next
  case (Cons w ws)
  then obtain m where n: "n = Suc m" and m: "length ws < m" by (cases n) auto
  from Cons.prems have ws: "list_all (wrong_password env info) ws"
    and ww: "wrong_password env info w"
    by simp_all
  from ww have w: "\<not> handle_back_choice w" "\<not> verify_password env w (password info)"
    by (simp_all add: wrong_password_def)
  have "lookup (accounts (notify (WrongPassword m) s)) phone = Some info"
    using Cons.prems(1) by (simp add: notify_fields)
  from Cons.IH [OF this ws m]
  obtain s' where s': "quiet (notify (WrongPassword m) s) s'"
    "password_attempts env phone m (ws @ ls) (notify (WrongPassword m) s) =
       password_attempts env phone (m - length ws) ls s'"
    by blast
  have "password_attempts env phone n ((w # ws) @ ls) s =
          password_attempts env phone m (ws @ ls) (notify (WrongPassword m) s)"
    using n m w Cons.prems(1) by simp
  with s' n show ?case using quiet_notify by auto
qed

lemma password_attempts_exhausted:
  assumes "lookup (accounts s) phone = Some info" and "list_all (wrong_password env info) ws"
    and "length ws = n" and "0 < n"
  shows "\<exists>s'. quiet s s' \<and>
           password_attempts env phone n (ws @ ls) s = Ret (False, TooManyWrongPasswords) ls s'"
proof -
  from assms(3,4) obtain ws' w where ws: "ws = ws' @ [w]"
    by (cases ws rule: rev_cases) auto
  with assms have a: "list_all (wrong_password env info) ws'" "length ws' < n" "wrong_password env info w"
    by auto
  from password_attempts_wrong [OF assms(1) a(1) a(2), of "w # ls"]
  obtain s1 where s1: "quiet s s1"
    "password_attempts env phone n (ws' @ w # ls) s = password_attempts env phone (n - length ws') (w # ls) s1"
    by blast
  have one: "n - length ws' = Suc 0" using ws assms(3) by simp
  have l1: "lookup (accounts s1) phone = Some info" using s1(1) assms(1) by (simp add: quiet_def)
  have "password_attempts env phone (Suc 0) (w # ls) s1 =
          Ret (False, TooManyWrongPasswords) ls (notify WrongPasswordFinal s1)"
    using a(3) l1 by (simp add: wrong_password_def)
  moreover have "quiet s (notify WrongPasswordFinal s1)"
    using s1(1) by (simp add: quiet_def notify_fields)
  ultimately show ?thesis using s1(2) one ws by auto
qed

lemma password_attempts_right:
  assumes "lookup (accounts s) phone = Some info" and "list_all (wrong_password env info) ws"
    and "length ws < n" and "right_password env info p"
  shows "\<exists>s'. quiet s s' \<and>
           password_attempts env phone n (ws @ p # ls) s = Ret (True, AuthOk) ls s'"
proof -
  from password_attempts_wrong [OF assms(1,2,3), of "p # ls"]
  obtain s1 where s1: "quiet s s1"
    "password_attempts env phone n (ws @ p # ls) s = password_attempts env phone (n - length ws) (p # ls) s1"
    by blast
  from assms(3) obtain k where k: "n - length ws = Suc k" by (cases "n - length ws") auto
  have l1: "lookup (accounts s1) phone = Some info" using s1(1) assms(1) by (simp add: quiet_def)
  have "password_attempts env phone (Suc k) (p # ls) s1 = Ret (True, AuthOk) ls s1"
    using assms(4) l1 by (simp add: right_password_def)
  with s1 k show ?thesis by auto
qed

lemma answer_attempts_wrong:
  assumes "lookup (accounts s) phone = Some info" and "list_all (wrong_answer env info) ws"
    and "length ws < n"
  shows "\<exists>s'. quiet s s' \<and>
           answer_attempts env phone n (ws @ ls) s = answer_attempts env phone (n - length ws) ls s'"
  using assms
proof (induction ws arbitrary: n s)
  case Nil
  then show ?case by (auto simp add: quiet_def)
next
  case (Cons w ws)
  then obtain m where n: "n = Suc m" and m: "length ws < m" by (cases n) auto
  from Cons.prems have ws: "list_all (wrong_answer env info) ws"
    and ww: "wrong_answer env info w"
    by simp_all
  from ww have w: "\<not> handle_back_choice (strip w)" "\<not> verify_answer env (strip w) (security_answer info)"
    by (simp_all add: wrong_answer_def)
  have "lookup (accounts (notify (WrongAnswer m) s)) phone = Some info"
    using Cons.prems(1) by (simp add: notify_fields)
  from Cons.IH [OF this ws m]
  obtain s' where s': "quiet (notify (WrongAnswer m) s) s'"
    "answer_attempts env phone m (ws @ ls) (notify (WrongAnswer m) s) =
       answer_attempts env phone (m - length ws) ls s'"
    by blast
  have "answer_attempts env phone n ((w # ws) @ ls) s =
          answer_attempts env phone m (ws @ ls) (notify (WrongAnswer m) s)"
    using n m w Cons.prems(1) by (simp add: Let_def)
  with s' n show ?case using quiet_notify by auto
qed

lemma answer_attempts_exhausted:
  assumes "lookup (accounts s) phone = Some info" and "list_all (wrong_answer env info) ws"
    and "length ws = n" and "0 < n"
  shows "\<exists>s'. quiet s s' \<and>
           answer_attempts env phone n (ws @ ls) s = Ret (False, TooManyWrongAnswers) ls s'"
proof -
  from assms(3,4) obtain ws' w where ws: "ws = ws' @ [w]"
    by (cases ws rule: rev_cases) auto
  with assms have a: "list_all (wrong_answer env info) ws'" "length ws' < n" "wrong_answer env info w"
    by auto
  from answer_attempts_wrong [OF assms(1) a(1) a(2), of "w # ls"]
  obtain s1 where s1: "quiet s s1"
    "answer_attempts env phone n (ws' @ w # ls) s = answer_attempts env phone (n - length ws') (w # ls) s1"
    by blast
  have one: "n - length ws' = Suc 0" using ws assms(3) by simp
  have l1: "lookup (accounts s1) phone = Some info" using s1(1) assms(1) by (simp add: quiet_def)
  have "answer_attempts env phone (Suc 0) (w # ls) s1 =
          Ret (False, TooManyWrongAnswers) ls (notify WrongAnswerFinal s1)"
    using a(3) l1 by (simp add: wrong_answer_def Let_def)
  moreover have "quiet s (notify WrongAnswerFinal s1)"
    using s1(1) by (simp add: quiet_def notify_fields)
  ultimately show ?thesis using s1(2) one ws by auto
qed

lemma answer_attempts_right:
  assumes "lookup (accounts s) phone = Some info" and "list_all (wrong_answer env info) ws"
    and "length ws < n" and "right_answer env info p"
  shows "\<exists>s'. quiet s s' \<and>
           answer_attempts env phone n (ws @ p # ls) s = Ret (True, AuthOk) ls s'"
proof -
  from answer_attempts_wrong [OF assms(1,2,3), of "p # ls"]
  obtain s1 where s1: "quiet s s1"
    "answer_attempts env phone n (ws @ p # ls) s = answer_attempts env phone (n - length ws) (p # ls) s1"
    by blast
  from assms(3) obtain k where k: "n - length ws = Suc k" by (cases "n - length ws") auto
  have l1: "lookup (accounts s1) phone = Some info" using s1(1) assms(1) by (simp add: quiet_def)
  have "answer_attempts env phone (Suc k) (p # ls) s1 = Ret (True, AuthOk) ls s1"
    using assms(4) l1 by (simp add: right_answer_def Let_def)
  with s1 k show ?thesis by auto
qed

lemma check_account_status_passes:
  assumes "lookup (accounts s) phone = Some info" and "status_passes env s info"
  shows "check_account_status env phone ls s = Ret (True, StatusNormal) ls (s\<lparr>ticks := Suc (ticks s)\<rparr>)"
  using assms
  by (auto simp add: check_account_status_def status_passes_def now_def split: option.splits)

lemma authenticate_with_password_passes:
  assumes "lookup (accounts s) phone = Some info" and "status_passes env s info"
  shows "authenticate_with_password env phone ls s =
           password_attempts env phone 3 ls (s\<lparr>ticks := Suc (ticks s)\<rparr>)"
  using check_account_status_passes [OF assms]
  by (simp add: authenticate_with_password_def MAX_AUTH_ATTEMPTS_def)

lemma authenticate_with_security_question_eq:
  assumes "lookup (accounts s) phone = Some info"
  shows "authenticate_with_security_question env phone ls s = answer_attempts env phone 3 ls s"
  using assms by (simp add: authenticate_with_security_question_def MAX_AUTH_ATTEMPTS_def)

text \<open>
  C5: password authentication (once the status check has let the account through) and
  security-question authentication both stop after three wrong attempts with the
  too-many-attempts result, having read exactly three lines, so that no fourth prompt
  is issued; and a right credential at the first, second or third attempt succeeds.
  No account changes and nothing is saved either way.
\<close>

theorem attempt_limited_authentication:
  assumes "lookup (accounts s) phone = Some info"
  shows "(status_passes env s info \<and> length ws = 3 \<and> list_all (wrong_password env info) ws \<longrightarrow>
            (\<exists>s'. authenticate_with_password env phone (ws @ ls) s =
                     Ret (False, TooManyWrongPasswords) ls s' \<and> quiet s s')) \<and>
         (status_passes env s info \<and> length ws < 3 \<and> list_all (wrong_password env info) ws \<and>
          right_password env info p \<longrightarrow>
            (\<exists>s'. authenticate_with_password env phone (ws @ p # ls) s =
                     Ret (True, AuthOk) ls s' \<and> quiet s s')) \<and>
         (length ws = 3 \<and> list_all (wrong_answer env info) ws \<longrightarrow>
            (\<exists>s'. authenticate_with_security_question env phone (ws @ ls) s =
                     Ret (False, TooManyWrongAnswers) ls s' \<and> quiet s s')) \<and>
         (length ws < 3 \<and> list_all (wrong_answer env info) ws \<and> right_answer env info p \<longrightarrow>
            (\<exists>s'. authenticate_with_security_question env phone (ws @ p # ls) s =
                     Ret (True, AuthOk) ls s' \<and> quiet s s'))"
proof (intro conjI impI)
  let ?s = "s\<lparr>ticks := Suc (ticks s)\<rparr>"
  have l: "lookup (accounts ?s) phone = Some info" using assms by simp
  have q: "quiet ?s s' \<Longrightarrow> quiet s s'" for s' by (simp add: quiet_def)
  {
    assume a: "status_passes env s info \<and> length ws = 3 \<and> list_all (wrong_password env info) ws"
    from password_attempts_exhausted [OF l, of env ws 3 ls] a
    obtain s' where "quiet ?s s'"
      "password_attempts env phone 3 (ws @ ls) ?s = Ret (False, TooManyWrongPasswords) ls s'"
      by auto
    then show "\<exists>s'. authenticate_with_password env phone (ws @ ls) s =
                     Ret (False, TooManyWrongPasswords) ls s' \<and> quiet s s'"
      using authenticate_with_password_passes [OF assms, of env] a q by auto
  }
  {
    assume a: "status_passes env s info \<and> length ws < 3 \<and> list_all (wrong_password env info) ws \<and>
          right_password env info p"
    from password_attempts_right [OF l, of env ws 3 p ls] a
    obtain s' where "quiet ?s s'"
      "password_attempts env phone 3 (ws @ p # ls) ?s = Ret (True, AuthOk) ls s'"
      by auto
    then show "\<exists>s'. authenticate_with_password env phone (ws @ p # ls) s =
                     Ret (True, AuthOk) ls s' \<and> quiet s s'"
      using authenticate_with_password_passes [OF assms, of env] a q by auto
  }
  {
    assume a: "length ws = 3 \<and> list_all (wrong_answer env info) ws"
    from answer_attempts_exhausted [OF assms, of env ws 3 ls] a
    show "\<exists>s'. authenticate_with_security_question env phone (ws @ ls) s =
                     Ret (False, TooManyWrongAnswers) ls s' \<and> quiet s s'"
      using authenticate_with_security_question_eq [OF assms] by auto
  }
  {
    assume a: "length ws < 3 \<and> list_all (wrong_answer env info) ws \<and> right_answer env info p"
    from answer_attempts_right [OF assms, of env ws 3 p ls] a
    show "\<exists>s'. authenticate_with_security_question env phone (ws @ p # ls) s =
                     Ret (True, AuthOk) ls s' \<and> quiet s s'"
      using authenticate_with_security_question_eq [OF assms] by auto
  }
qed

lemma sample_passes: "status_passes (plain_env ok) (sample_sys b Active 63902592000000000) (sample_account b Active 63902592000000000)"
  by (simp add: status_passes_def sample_account_def sample_sys_def empty_sys_def plain_env_def is_expired_def)

lemma sample_wrong_password:
  "list_all (wrong_password (plain_env ok) (sample_account b st x)) [''1111'', ''2222'', ''3333'']"
  by (simp add: wrong_password_def verify_password_def hash_password_def sample_account_def plain_env_def handle_back_choice_def)

lemma sample_right_password:
  "right_password (plain_env ok) (sample_account b st x) ''1234''"
  by (simp add: right_password_def verify_password_def hash_password_def sample_account_def plain_env_def handle_back_choice_def)

lemma sample_wrong_answer:
  "list_all (wrong_answer (plain_env ok) (sample_account b st x)) [''1111'', ''2222'', ''3333'']"
  by (simp add: wrong_answer_def verify_answer_def hash_answer_def sample_account_def plain_env_def text_eval)

lemma sample_right_answer:
  "right_answer (plain_env ok) (sample_account b st x) '' blue''"
  by (simp add: right_answer_def verify_answer_def hash_answer_def sample_account_def plain_env_def text_eval)

theorem attempt_limited_authentication_witness:
  "(\<exists>s'. authenticate_with_password (plain_env True) ''13800001234''
            [''1111'', ''2222'', ''3333'', ''1234''] (sample_sys (Fin 50) Active 63902592000000000) =
          Ret (False, TooManyWrongPasswords) [''1234''] s') \<and>
   (\<exists>s'. authenticate_with_password (plain_env True) ''13800001234''
            [''1111'', ''2222'', ''1234'', ''next''] (sample_sys (Fin 50) Active 63902592000000000) =
          Ret (True, AuthOk) [''next''] s') \<and>
   (\<exists>s'. authenticate_with_security_question (plain_env True) ''13800001234''
            [''1111'', ''2222'', ''3333'', '' blue''] (sample_sys (Fin 50) Active 63902592000000000) =
          Ret (False, TooManyWrongAnswers) ['' blue''] s') \<and>
   (\<exists>s'. authenticate_with_security_question (plain_env True) ''13800001234''
            [''1111'', ''2222'', '' blue'', ''next''] (sample_sys (Fin 50) Active 63902592000000000) =
          Ret (True, AuthOk) [''next''] s')"
proof -
  let ?S = "sample_sys (Fin 50) Active 63902592000000000"
  let ?A = "sample_account (Fin 50) Active 63902592000000000"
  note L = sample_lookup [of "Fin 50" Active 63902592000000000]
  have w2: "list_all (wrong_password (plain_env True) ?A) [''1111'', ''2222'']"
    "list_all (wrong_answer (plain_env True) ?A) [''1111'', ''2222'']"
    using sample_wrong_password [of True "Fin 50" Active 63902592000000000]
      sample_wrong_answer [of True "Fin 50" Active 63902592000000000] by simp_all
  have A: "\<exists>s'. authenticate_with_password (plain_env True) ''13800001234''
            ([''1111'', ''2222'', ''3333''] @ [''1234'']) ?S =
          Ret (False, TooManyWrongPasswords) [''1234''] s'"
    using attempt_limited_authentication [OF L, where env = "plain_env True"
        and ws = "[''1111'', ''2222'', ''3333'']" and ls = "[''1234'']"]
      sample_passes sample_wrong_password by auto
  have B: "\<exists>s'. authenticate_with_password (plain_env True) ''13800001234''
            ([''1111'', ''2222''] @ ''1234'' # [''next'']) ?S =
          Ret (True, AuthOk) [''next''] s'"
    using attempt_limited_authentication [OF L, where env = "plain_env True"
        and ws = "[''1111'', ''2222'']" and p = "''1234''" and ls = "[''next'']"]
      sample_passes w2 sample_right_password by auto
  have C: "\<exists>s'. authenticate_with_security_question (plain_env True) ''13800001234''
            ([''1111'', ''2222'', ''3333''] @ ['' blue'']) ?S =
          Ret (False, TooManyWrongAnswers) ['' blue''] s'"
    using attempt_limited_authentication [OF L, where env = "plain_env True"
        and ws = "[''1111'', ''2222'', ''3333'']" and ls = "['' blue'']"]
      sample_wrong_answer by auto
  have D: "\<exists>s'. authenticate_with_security_question (plain_env True) ''13800001234''
            ([''1111'', ''2222''] @ '' blue'' # [''next'']) ?S =
          Ret (True, AuthOk) [''next''] s'"
    using attempt_limited_authentication [OF L, where env = "plain_env True"
        and ws = "[''1111'', ''2222'']" and p = "'' blue''" and ls = "[''next'']"]
      w2 sample_right_answer by auto
  from A B C D show ?thesis by simp
qed

subsection \<open>A save that fails\<close>

lemma recharge_amount_accepts:
  assumes "lookup (accounts s) phone = Some info"
    and "float_of env (strip l) = Some a" and "\<not> handle_back_choice (strip l)"
    and "\<not> fle a (Fin 0)"
  shows "\<exists>s'. recharge_amount env phone (l # ls) s =
           Ret (save_ok env (saves s),
                if save_ok env (saves s) then RechargeOk phone (fadd (balance info) a)
                else RechargeSaveFailed) ls s' \<and>
           saves s' = Suc (saves s) \<and> ticks s' = Suc (ticks s) \<and>
           lookup (accounts s') phone =
             Some (info\<lparr>balance := (if save_ok env (saves s) then fadd (balance info) a else balance info),
                        last_modified := Some (clock env (ticks s))\<rparr>) \<and>
           (save_ok env (saves s) \<longrightarrow> disk s' = accounts s')"
  using assms
  by (simp add: Let_def now_def save_data_def update_fields sync_fields lookup_modify update_def sync_to_github_def)

lemmas run_eval = find_account_def find_tail_def validate_phone_def codes_def is_decimal_ascii
  lookup_def
  authenticate_with_password_def check_account_status_def MAX_AUTH_ATTEMPTS_def
  verify_password_def hash_password_def is_expired_def now_def save_data_def update_def
  modify_def sync_to_github_def notify_def Let_def numeral_3_eq_3

lemma float_plain_25_5: "float_plain ''25.5'' = Some (Fin (51 / 2))"
  by (simp add: plain_eval text_eval) (simp add: fl_eval)

lemma fadd_50_25_5: "fadd (Fin 50) (Fin (51 / 2)) = Fin (151 / 2)"
  by (simp add: fl_eval)

lemma fsub_50_25_5: "fsub (Fin 50) (Fin (51 / 2)) = Fin (49 / 2)"
  by (simp add: fsub_def fl_eval)

text \<open>
  C2 does not hold of the code. When the save fails, \<open>recharge\<close> and \<open>deduct\<close> report the
  failure and put the old balance back, but the \<open>last_modified\<close> they had just set stays:
  the account is not left as it was before the operation. Here the operator finds the
  account by its tail 1234, gives the password 1234 and the amount 25.5, and every save
  fails.
\<close>

theorem save_failure_keeps_new_timestamp:
  "account_after (recharge (plain_env False) [''1234'', ''1234'', ''25.5'']
        (sample_sys (Fin 50) Active 63902592000000000)) ''13800001234'' =
     Some ((sample_account (Fin 50) Active 63902592000000000)
             \<lparr>last_modified := Some 63900000000000001\<rparr>) \<and>
   account_after (deduct (plain_env False) [''1234'', ''1234'', ''25.5'']
        (sample_sys (Fin 50) Active 63902592000000000)) ''13800001234'' =
     Some ((sample_account (Fin 50) Active 63902592000000000)
             \<lparr>last_modified := Some 63900000000000001\<rparr>) \<and>
   ret_val (recharge (plain_env False) [''1234'', ''1234'', ''25.5'']
        (sample_sys (Fin 50) Active 63902592000000000)) = Some (False, RechargeSaveFailed) \<and>
   ret_val (deduct (plain_env False) [''1234'', ''1234'', ''25.5'']
        (sample_sys (Fin 50) Active 63902592000000000)) = Some (False, DeductSaveFailed) \<and>
   last_modified (sample_account (Fin 50) Active 63902592000000000) = Some 63900000000000000"
  by (simp add: run_eval text_eval plain_env_def float_plain_25_5 fadd_50_25_5 fsub_50_25_5
      sample_sys_def sample_account_def empty_sys_def account_after_def ret_val_def fle_def day_us_def)

subsection \<open>Expired accounts\<close>

lemma authenticate_expires:
  assumes "lookup (accounts s) phone = Some info" and "status info \<noteq> Expired"
    and "expiry_time info = Some x" and "is_expired (clock env (ticks s)) x"
  shows "authenticate_with_password env phone ls s =
           Ret (False, AccountExpired) ls
             (s\<lparr>accounts := modify phone (\<lambda>a. a\<lparr>status := Expired\<rparr>) (accounts s),
                ticks := Suc (ticks s), saves := Suc (saves s),
                disk := (if save_ok env (saves s)
                         then modify phone (\<lambda>a. a\<lparr>status := Expired\<rparr>) (accounts s)
                         else disk s)\<rparr>)"
  using assms
  by (simp add: authenticate_with_password_def check_account_status_def now_def save_data_def
      update_def)

lemma authenticate_recorded_expired:
  assumes "lookup (accounts s) phone = Some info" and "status info = Expired"
  shows "authenticate_with_password env phone ls s = Ret (False, AccountExpired) ls s"
  using assms
  by (simp add: authenticate_with_password_def check_account_status_def)

lemma validate_password_not_back: "validate_password pw \<Longrightarrow> \<not> handle_back_choice pw"
  by (auto simp add: validate_password_def handle_back_choice_def)

lemma new_password_loop_accepts:
  assumes "validate_password pw"
  shows "new_password_loop env phone (pw # pw # ls) s =
           Ret (save_ok env (saves s), if save_ok env (saves s) then ResetOk else ResetSaveFailed) ls
             (s\<lparr>accounts := modify phone (\<lambda>a. a\<lparr>last_modified := Some (clock env (ticks s))\<rparr>)
                              (modify phone (\<lambda>a. a\<lparr>password := Some (hash_password env pw)\<rparr>) (accounts s)),
                ticks := Suc (ticks s), saves := Suc (saves s),
                disk := (if save_ok env (saves s)
                         then modify phone (\<lambda>a. a\<lparr>last_modified := Some (clock env (ticks s))\<rparr>)
                              (modify phone (\<lambda>a. a\<lparr>password := Some (hash_password env pw)\<rparr>) (accounts s))
                         else disk s)\<rparr>)"
  using assms validate_password_not_back [OF assms]
  by (simp add: now_def save_data_def update_def)

lemma reset_password_accepts:
  assumes "lookup (accounts s) phone = Some info" and "right_answer env info l"
    and "validate_password pw"
  shows "\<exists>s'. reset_password env phone (l # pw # pw # ls) s =
           Ret (save_ok env (saves s), if save_ok env (saves s) then ResetOk else ResetSaveFailed) ls s' \<and>
           lookup (accounts s') phone =
             Some (info\<lparr>password := Some (hash_password env pw),
                        last_modified := Some (clock env (ticks s))\<rparr>) \<and>
           saves s' = Suc (saves s) \<and>
           (save_ok env (saves s) \<longrightarrow> disk s' = accounts s')"
proof -
  have "answer_attempts env phone 3 (l # pw # pw # ls) s = Ret (True, AuthOk) (pw # pw # ls) s"
    using assms(1,2) by (simp add: right_answer_def numeral_3_eq_3 Let_def)
  then have "reset_password env phone (l # pw # pw # ls) s = new_password_loop env phone (pw # pw # ls) s"
    using authenticate_with_security_question_eq [OF assms(1)]
    by (simp add: reset_password_def del: new_password_loop.simps)
  then show ?thesis
    using new_password_loop_accepts [OF assms(3)] assms(1)
    by (simp add: lookup_modify del: new_password_loop.simps)
qed

lemma recharge_refused_when_expired:
  assumes "find_account s (strip l0) = Inr phone" and "\<not> handle_back_choice (strip l0)"
    and "lookup (accounts s) phone = Some info" and "status info = Expired"
  shows "recharge env (l0 # ls) s = Ret (False, AccountExpired) ls s"
    and "deduct env (l0 # ls) s = Ret (False, AccountExpired) ls s"
  using assms authenticate_recorded_expired [OF assms(3,4)]
  by (simp_all add: Let_def)

text \<open>
  C10: resetting the password asks only for the security answer; neither the status nor
  the expiry time of the account is looked at. So for every account, whatever its status
  and however long past its expiry time, the right answer and a new four-digit password
  typed twice reset the password (when the save succeeds). An account recorded as
  expired is refused by password authentication, and with it by recharge and deduct.
\<close>

theorem reset_password_ignores_expiry:
  assumes "lookup (accounts s) phone = Some info"
    and "right_answer env info l" and "validate_password pw" and "save_ok env (saves s)"
  shows "(\<exists>s'. reset_password env phone (l # pw # pw # ls) s = Ret (True, ResetOk) ls s' \<and>
               lookup (accounts s') phone =
                 Some (info\<lparr>password := Some (hash_password env pw),
                            last_modified := Some (clock env (ticks s))\<rparr>) \<and>
               disk s' = accounts s') \<and>
         (status info = Expired \<longrightarrow>
            authenticate_with_password env phone ls s = Ret (False, AccountExpired) ls s \<and>
            (find_account s (strip l0) = Inr phone \<and> \<not> handle_back_choice (strip l0) \<longrightarrow>
               recharge env (l0 # ls) s = Ret (False, AccountExpired) ls s \<and>
               deduct env (l0 # ls) s = Ret (False, AccountExpired) ls s))"
  using reset_password_accepts [OF assms(1,2,3), of ls] assms(4)
    authenticate_recorded_expired [OF assms(1)]
    recharge_refused_when_expired [OF _ _ assms(1)]
  by (auto simp del: recharge.simps deduct.simps)

lemma sample_find: "find_account (sample_sys b st x) (strip ''1234'') = Inr ''13800001234''"
  by (simp add: run_eval text_eval sample_sys_def sample_account_def empty_sys_def)

lemma validate_password_4321: "validate_password ''4321''"
  by (simp add: validate_password_def text_eval)

theorem reset_password_ignores_expiry_witness:
  "(\<exists>s'. reset_password (plain_env True) ''13800001234'' ['' blue'', ''4321'', ''4321'', ''next'']
           (sample_sys (Fin 50) Expired 63800000000000000) = Ret (True, ResetOk) [''next''] s' \<and>
         map_option password (lookup (accounts s') ''13800001234'') = Some (Some ''sha256:4321'')) \<and>
   recharge (plain_env True) [''1234'', ''next''] (sample_sys (Fin 50) Expired 63800000000000000) =
     Ret (False, AccountExpired) [''next''] (sample_sys (Fin 50) Expired 63800000000000000) \<and>
   deduct (plain_env True) [''1234'', ''next''] (sample_sys (Fin 50) Expired 63800000000000000) =
     Ret (False, AccountExpired) [''next''] (sample_sys (Fin 50) Expired 63800000000000000)"
proof -
  have st: "status (sample_account (Fin 50) Expired 63800000000000000) = Expired"
    by (simp add: sample_account_def)
  have ok: "save_ok (plain_env True) (saves (sample_sys (Fin 50) Expired 63800000000000000))"
    by (simp add: plain_env_def)
  have nb: "\<not> handle_back_choice (strip ''1234'')"
    by (simp add: text_eval)
  have h: "hash_password (plain_env True) ''4321'' = ''sha256:4321''"
    by (simp add: hash_password_def plain_env_def)
  note T = reset_password_ignores_expiry [OF sample_lookup sample_right_answer
      validate_password_4321 ok, where ls = "[''next'']" and ?l0.0 = "''1234''"]
  from T have A: "\<exists>s'. reset_password (plain_env True) ''13800001234''
           ['' blue'', ''4321'', ''4321'', ''next''] (sample_sys (Fin 50) Expired 63800000000000000) =
           Ret (True, ResetOk) [''next''] s' \<and>
         map_option password (lookup (accounts s') ''13800001234'') = Some (Some ''sha256:4321'')"
    by (auto simp add: h simp del: recharge.simps deduct.simps)
  from T st sample_find nb
  have B: "recharge (plain_env True) [''1234'', ''next''] (sample_sys (Fin 50) Expired 63800000000000000) =
     Ret (False, AccountExpired) [''next''] (sample_sys (Fin 50) Expired 63800000000000000) \<and>
   deduct (plain_env True) [''1234'', ''next''] (sample_sys (Fin 50) Expired 63800000000000000) =
     Ret (False, AccountExpired) [''next''] (sample_sys (Fin 50) Expired 63800000000000000)"
    by (simp del: recharge.simps deduct.simps)
  from A B show ?thesis by blast
qed

subsection \<open>The expiry scan\<close>

lemma format_remaining_time_frozen:
  assumes "\<forall>n. clock env n = t"
  shows "fst (format_remaining_time env x s) = fst (format_remaining_time env x s0)"
  using assms by (simp add: format_remaining_time_def now_def Let_def)

lemma format_remaining_time_quiet: "quiet s (snd (format_remaining_time env x s))"
  by (simp add: format_remaining_time_def now_def Let_def quiet_def)

lemma scan_expiry_frozen:
  assumes "\<forall>n. clock env n = t"
  shows "fst (scan_expiry env st r s) = fst (scan_expiry env st r s0)"
proof (induction st arbitrary: r s s0)
  case Nil
  show ?case by simp
next
  case (Cons e st)
  obtain phone info where e: "e = (phone, info)" by (cases e)
  show ?case
  proof (cases "expiry_time info")
    case None
    with e Cons.IH show ?thesis by simp
  next
    case (Some x)
    have f: "fst (format_remaining_time env x s1) = fst (format_remaining_time env x s2)" for s1 s2
      using format_remaining_time_frozen [OF assms] by blast
    show ?thesis
      using e Some assms Cons.IH f
      by (simp add: now_def Let_def split_beta) metis
  qed
qed

lemma scan_expiry_quiet: "quiet s (snd (scan_expiry env st r s))"
proof (induction st arbitrary: r s)
  case Nil
  show ?case by (simp add: quiet_def)
next
  case (Cons e st)
  obtain phone info where e: "e = (phone, info)" by (cases e)
  have q: "quiet s1 s2 \<Longrightarrow> quiet s s1 \<Longrightarrow> quiet s s2" for s1 s2
    by (simp add: quiet_def)
  have n: "quiet s (s\<lparr>ticks := k\<rparr>)" for k
    by (simp add: quiet_def)
  show ?case
  proof (cases "expiry_time info")
    case None
    with e Cons.IH show ?thesis by simp
  next
    case (Some x)
    have a: "quiet s (snd (scan_expiry env st r' (s\<lparr>ticks := k\<rparr>)))" for r' k
      using q [OF Cons.IH n] .
    have b: "quiet s (snd (scan_expiry env st r' (snd (format_remaining_time env x (s\<lparr>ticks := k\<rparr>)))))" for r' k
      using q [OF Cons.IH q [OF format_remaining_time_quiet n]] .
    show ?thesis
      using e Some a b
      by (simp add: now_def Let_def split_beta)
  qed
qed

text \<open>
  C7: when the clock stands still, a second \<open>check_expired_accounts\<close> right after the
  first gives the same report (the same accounts listed as expired, the same listed as
  about to expire with the same remaining time, the same counts), so every account is
  classified as before; and neither call changes any account, so no balance and no
  registration bonus changes (nor is anything saved).
\<close>

theorem check_expired_accounts_idempotent:
  assumes "\<forall>n. clock env n = t"
  shows "fst (check_expired_accounts env (snd (check_expired_accounts env s))) =
           fst (check_expired_accounts env s) \<and>
         accounts (snd (check_expired_accounts env s)) = accounts s \<and>
         accounts (snd (check_expired_accounts env (snd (check_expired_accounts env s)))) = accounts s"
proof -
  let ?s1 = "snd (check_expired_accounts env s)"
  have a1: "accounts ?s1 = accounts s"
    using scan_expiry_quiet [of s env "accounts s"] by (simp add: check_expired_accounts_def quiet_def)
  have a2: "accounts (snd (check_expired_accounts env ?s1)) = accounts ?s1"
    using scan_expiry_quiet [of ?s1 env "accounts ?s1"] by (simp add: check_expired_accounts_def quiet_def)
  have "fst (check_expired_accounts env ?s1) = fst (check_expired_accounts env s)"
    using scan_expiry_frozen [OF assms, of "accounts s" _ ?s1 s] a1
    by (simp add: check_expired_accounts_def)
  with a1 a2 show ?thesis by simp
qed

lemma frozen_clock: "\<forall>n. clock (frozen_env t) n = t"
  by (simp add: frozen_env_def)

lemma sample_report:
  "fst (check_expired_accounts (frozen_env 63900000000000000)
          (sample_sys (Fin 50) Active (63900000000000000 + day_us))) =
     \<lparr>expired_count = 0, expiring_count = 1,
      report_lines = [LineExpiring ''13800001234'' (Days 1)]\<rparr>"
  by (simp add: check_expired_accounts_def sample_sys_def sample_account_def empty_sys_def
      frozen_env_def now_def is_expired_def get_remaining_days_def format_remaining_time_def
      day_us_def Let_def)

theorem check_expired_accounts_idempotent_witness:
  "fst (check_expired_accounts (frozen_env 63900000000000000)
     (snd (check_expired_accounts (frozen_env 63900000000000000)
        (sample_sys (Fin 50) Active (63900000000000000 + day_us))))) =
     \<lparr>expired_count = 0, expiring_count = 1,
      report_lines = [LineExpiring ''13800001234'' (Days 1)]\<rparr> \<and>
   accounts (snd (check_expired_accounts (frozen_env 63900000000000000)
     (snd (check_expired_accounts (frozen_env 63900000000000000)
        (sample_sys (Fin 50) Active (63900000000000000 + day_us)))))) =
     [(''13800001234'', sample_account (Fin 50) Active (63900000000000000 + day_us))]"
  using check_expired_accounts_idempotent [OF frozen_clock,
      of 63900000000000000 "sample_sys (Fin 50) Active (63900000000000000 + day_us)"]
    sample_report
  by (simp add: sample_sys_def empty_sys_def)

subsection \<open>Recharge, then deduct\<close>

lemma float_plain_0_2: "float_plain ''0.2'' = Some (Fin (3602879701896397 / 18014398509481984))"
  by (simp add: plain_eval text_eval) (simp add: fl_eval)

lemma fadd_tenth_fifth:
  "fadd (Fin (3602879701896397 / 36028797018963968)) (Fin (3602879701896397 / 18014398509481984)) =
     Fin (1351079888211149 / 4503599627370496)"
  by (simp add: fl_eval)

lemma fl_tenth_plus_fifth:
  "fl (10808639105689191 / 36028797018963968) = Fin (1351079888211149 / 4503599627370496)"
  by (simp add: fl_eval)

lemma fsub_sum_fifth:
  "fsub (Fin (1351079888211149 / 4503599627370496)) (Fin (3602879701896397 / 18014398509481984)) =
     Fin (1801439850948199 / 18014398509481984)"
  by (simp add: fsub_def fl_eval)

text \<open>
  C6, as the claim states it, fails: the balance is a binary float, and both the recharge
  and the deduction round. With the balance 0.1 (the float nearest to one tenth), a
  recharge of 0.2 and then a deduction of 0.2 both succeed and leave
  0.10000000000000003, not the balance before.
\<close>

theorem recharge_deduct_rounding_counterexample:
  "round_trip_balance (plain_env True) ''13800001234'' ''0.2''
      (sample_sys (Fin (3602879701896397 / 36028797018963968)) Active 63902592000000000) =
     Some (Fin (1801439850948199 / 18014398509481984)) \<and>
   balance_of (sample_sys (Fin (3602879701896397 / 36028797018963968)) Active 63902592000000000)
      ''13800001234'' = Some (Fin (3602879701896397 / 36028797018963968)) \<and>
   Fin (1801439850948199 / 18014398509481984) \<noteq> Fin (3602879701896397 / 36028797018963968)"
  by (simp add: round_trip_balance_def recharge_then_deduct_def run_eval text_eval plain_env_def
      float_plain_0_2 fadd_tenth_fifth fl_tenth_plus_fifth fsub_sum_fifth sample_sys_def
      sample_account_def empty_sys_def balance_of_def fle_def day_us_def)

lemma round_trip_balance_value:
  assumes "lookup (accounts s) phone = Some info" and "float_of env (strip l) = Some a"
    and "round_trip_balance env phone l s = Some v"
  shows "v = fsub (fadd (balance info) a) a"
  using assms
  by (auto simp add: round_trip_balance_def recharge_then_deduct_def Let_def now_def save_data_def
      update_def sync_to_github_def lookup_modify balance_of_def
      split: if_splits option.splits res.splits prod.splits bool.splits)

lemma round_trip_balance_exact:
  assumes "lookup (accounts s) phone = Some info" and "balance info = Fin b" and "0 \<le> b"
    and "float_of env (strip l) = Some (Fin a)" and "\<not> handle_back_choice (strip l)" and "0 < a"
    and "is_float b" and "is_float (b + a)"
    and "save_ok env (saves s)" and "save_ok env (Suc (saves s))"
  shows "round_trip_balance env phone l s = Some (Fin b)"
proof -
  have na: "\<not> fle (Fin a) (Fin 0)" using assms(6) by (simp add: fle_def)
  from recharge_amount_accepts [OF assms(1,4,5) na, of "[]"] assms(9)
  obtain s1 where s1: "recharge_amount env phone [l] s = Ret (True, RechargeOk phone (fadd (balance info) (Fin a))) [] s1"
    "saves s1 = Suc (saves s)"
    "lookup (accounts s1) phone = Some (info\<lparr>balance := fadd (balance info) (Fin a),
        last_modified := Some (clock env (ticks s))\<rparr>)"
    by auto
  have sum: "fadd (balance info) (Fin a) = Fin (b + a)"
    using assms(2,8) by (simp add: is_float_def)
  let ?info1 = "info\<lparr>balance := fadd (balance info) (Fin a), last_modified := Some (clock env (ticks s))\<rparr>"
  have nl: "\<not> flt (balance ?info1) (Fin a)" using sum assms(3) by simp
  from deduct_amount_accepts [OF s1(3) assms(4,5) na nl, of "[]"] assms(10) s1(2)
  obtain s2 where s2: "deduct_amount env phone [l] s1 =
      Ret (True, DeductOk phone (fsub (balance ?info1) (Fin a))) [] s2"
    "lookup (accounts s2) phone = Some (?info1\<lparr>balance := fsub (balance ?info1) (Fin a),
        last_modified := Some (clock env (ticks s1))\<rparr>)"
    by auto
  have restored: "fsub (Fin (b + a)) (Fin a) = Fin b"
    using assms(7) by (simp add: fsub_def is_float_def)
  from s1(1) s2 sum restored show ?thesis
    by (simp add: round_trip_balance_def recharge_then_deduct_def balance_of_def
        del: recharge_amount.simps deduct_amount.simps)
qed

text \<open>
  C6, amended: a successful recharge by an amount and then a successful deduction of the
  same amount leave the balance that binary floating-point arithmetic gives, the sum
  rounded and then the difference rounded. It is exactly the balance from before
  whenever that balance is not negative and the sum of balance and amount is itself a
  float, so that the recharge does not round.
\<close>

theorem recharge_deduct_round_trip:
  assumes "lookup (accounts s) phone = Some info" and "float_of env (strip l) = Some a"
  shows "(round_trip_balance env phone l s = Some v \<longrightarrow> v = fsub (fadd (balance info) a) a) \<and>
         (\<forall>b q. balance info = Fin b \<and> a = Fin q \<and> 0 \<le> b \<and> 0 < q \<and>
            \<not> handle_back_choice (strip l) \<and> is_float b \<and> is_float (b + q) \<and>
            save_ok env (saves s) \<and> save_ok env (Suc (saves s)) \<longrightarrow>
            round_trip_balance env phone l s = Some (Fin b))"
  using round_trip_balance_value [OF assms] round_trip_balance_exact [OF assms(1)] assms(2)
  by blast

lemma float_plain_0_25: "float_plain ''0.25'' = Some (Fin (1 / 4))"
  by (simp add: plain_eval text_eval) (simp add: fl_eval)

lemma is_float_half: "is_float (1 / 2)" "is_float (1 / 2 + 1 / 4)"
  by (simp_all add: is_float_def fl_eval)

theorem recharge_deduct_round_trip_witness:
  "round_trip_balance (plain_env True) ''13800001234'' ''0.25''
     (sample_sys (Fin (1 / 2)) Active 63902592000000000) = Some (Fin (1 / 2)) \<and>
   fsub (fadd (Fin (1 / 2)) (Fin (1 / 4))) (Fin (1 / 4)) = Fin (1 / 2)"
proof -
  have f: "float_of (plain_env True) (strip ''0.25'') = Some (Fin (1 / 4))"
    using float_plain_0_25 by (simp add: plain_env_def text_eval)
  have b: "balance (sample_account (Fin (1 / 2)) Active 63902592000000000) = Fin (1 / 2)"
    by (simp add: sample_account_def)
  have nb: "\<not> handle_back_choice (strip ''0.25'')"
    by (simp add: text_eval)
  have ok: "save_ok (plain_env True) n" for n
    by (simp add: plain_env_def)
  note T = recharge_deduct_round_trip
      [OF sample_lookup [of "Fin (1 / 2)" Active 63902592000000000] f, where v = "Fin (1 / 2)"]
  have pos: "(0::rat) \<le> 1 / 2" "(0::rat) < 1 / 4"
    by simp_all
  from T have "balance (sample_account (Fin (1 / 2)) Active 63902592000000000) = Fin (1 / 2) \<and>
      Fin (1 / 4) = Fin (1 / 4) \<and> (0::rat) \<le> 1 / 2 \<and> (0::rat) < 1 / 4 \<and>
      \<not> handle_back_choice (strip ''0.25'') \<and> is_float (1 / 2) \<and> is_float (1 / 2 + 1 / 4) \<and>
      save_ok (plain_env True) (saves (sample_sys (Fin (1 / 2)) Active 63902592000000000)) \<and>
      save_ok (plain_env True) (Suc (saves (sample_sys (Fin (1 / 2)) Active 63902592000000000))) \<longrightarrow>
      round_trip_balance (plain_env True) ''13800001234'' ''0.25''
        (sample_sys (Fin (1 / 2)) Active 63902592000000000) = Some (Fin (1 / 2))"
    by blast
  with b nb ok is_float_half pos
  have A: "round_trip_balance (plain_env True) ''13800001234'' ''0.25''
     (sample_sys (Fin (1 / 2)) Active 63902592000000000) = Some (Fin (1 / 2))"
    by blast
  with T have "Fin (1 / 2) =
      fsub (fadd (balance (sample_account (Fin (1 / 2)) Active 63902592000000000)) (Fin (1 / 4))) (Fin (1 / 4))"
    by blast
  with b have "fsub (fadd (Fin (1 / 2)) (Fin (1 / 4))) (Fin (1 / 4)) = Fin (1 / 2)"
    by (simp del: fadd.simps)
  with A show ?thesis by blast
qed

subsection \<open>The balance is a float\<close>

lemmas register_eval = set_password_and_security_def register_account_def new_account_def
  delete_account_def dict_set_def dict_del_def calculate_expiry_time_def max_time_def
  validate_password_def common_questions_def MIN_ANSWER_LENGTH_def hash_answer_def
  DEFAULT_REGISTRATION_BONUS_def last4_def

text \<open>
  C1 does not hold of the code. \<open>set_registration_bonus\<close> refuses a bonus that is less
  than zero, and \<open>recharge\<close> an amount that is at most zero; the float NaN is neither, so
  both let it through. A registration with the bonus typed as \<open>nan\<close> creates an account
  whose balance is NaN, and a recharge by \<open>nan\<close> turns a balance of 50 into NaN: a
  balance for which \<open>balance >= 0\<close> is false.
\<close>

theorem nan_balance_accepted:
  "balance_after (register_phone (plain_env True)
       [''13800001234'', ''nan'', ''30'', ''1234'', ''1234'', ''1'', ''blue'', ''blue''] empty_sys)
     ''13800001234'' = Some NaN \<and>
   ret_val (register_phone (plain_env True)
       [''13800001234'', ''nan'', ''30'', ''1234'', ''1234'', ''1'', ''blue'', ''blue''] empty_sys) =
     Some (True, AccountCreated NaN) \<and>
   balance_after (recharge (plain_env True) [''1234'', ''1234'', ''nan'']
       (sample_sys (Fin 50) Active 63902592000000000)) ''13800001234'' = Some NaN \<and>
   ret_val (recharge (plain_env True) [''1234'', ''1234'', ''nan'']
       (sample_sys (Fin 50) Active 63902592000000000)) = Some (True, RechargeOk ''13800001234'' NaN) \<and>
   \<not> fge NaN (Fin 0)"
  by (simp add: run_eval register_eval text_eval plain_eval sample_sys_def sample_account_def
      empty_sys_def balance_after_def account_after_def ret_val_def fle_def fge_def day_us_def)

subsection \<open>Registration\<close>

lemma dict_del_modify: "dict_del phone (modify phone f st) = dict_del phone st"
  by (induction st) (auto simp add: dict_del_def modify_def)

lemma dict_del_fresh: "lookup st phone = None \<Longrightarrow> dict_del phone st = st"
  by (induction st) (auto simp add: dict_del_def lookup_def split: if_splits)

lemma dict_del_dict_set: "lookup st phone = None \<Longrightarrow> dict_del phone (dict_set phone a st) = st"
proof -
  assume n: "lookup st phone = None"
  then have "phone \<notin> fst ` set st" by (simp add: lookup_def map_of_eq_None_iff)
  then have "dict_set phone a st = st @ [(phone, a)]" by (simp add: dict_set_def)
  then show ?thesis using dict_del_fresh [OF n] by (simp add: dict_del_def)
qed

lemma lookup_dict_del: "lookup (dict_del phone st) k = (if k = phone then None else lookup st k)"
  by (induction st) (auto simp add: dict_del_def lookup_def)

lemma confined_trans: "confined phone s s1 \<Longrightarrow> confined phone s1 s2 \<Longrightarrow> confined phone s s2"
  by (simp add: confined_def)

lemma set_registration_bonus_quiet:
  "set_registration_bonus env ls s = Ret r ls' s' \<Longrightarrow> quiet s s' \<and> ticks s' = ticks s"
proof (induction env ls s rule: set_registration_bonus.induct)
  case (1 env s)
  then show ?case by simp
next
  case (2 env l ls s)
  have q: "quiet (notify n s) s' \<and> ticks s' = ticks (notify n s) \<Longrightarrow> quiet s s' \<and> ticks s' = ticks s" for n
    by (simp add: quiet_def notify_fields)
  from "2.prems" "2.IH" q show ?case
    by (auto simp add: Let_def quiet_def notify_fields split: if_splits option.splits)
qed

lemma set_valid_days_confined:
  "set_valid_days env phone ls s = Ret r ls' s' \<Longrightarrow> confined phone s s'"
proof (induction env phone ls s rule: set_valid_days.induct)
  case (1 env phone s)
  then show ?case by simp
next
  case (2 env phone l ls s)
  from "2.prems" "2.IH" show ?case
    by (auto simp add: Let_def now_def confined_def notify_fields update_fields dict_del_modify
        split: if_splits option.splits sum.splits)
qed

lemma set_password_loop_confined:
  "set_password_loop env phone ls s = Ret r ls' s' \<Longrightarrow> confined phone s s'"
proof (induction env phone ls s rule: set_password_loop.induct)
  case (1 env phone s)
  then show ?case by simp
next
  case (2 env phone pw ls s)
  from "2.prems" "2.IH" show ?case
    by (auto simp add: confined_def notify_fields update_fields dict_del_modify
        split: if_splits list.splits)
qed

lemma choose_question_loop_quiet:
  "choose_question_loop env ls s = Ret r ls' s' \<Longrightarrow> quiet s s' \<and> ticks s' = ticks s"
proof (induction env ls s rule: choose_question_loop.induct)
  case (1 env s)
  then show ?case by simp
next
  case (2 env l ls s)
  from "2.prems" "2.IH" show ?case
    by (auto simp add: Let_def quiet_def notify_fields split: if_splits option.splits)
qed

lemma set_answer_loop_confined:
  "set_answer_loop env phone q ls s = Ret r ls' s' \<Longrightarrow> confined phone s s'"
proof (induction env phone q ls s rule: set_answer_loop.induct)
  case (1 env phone q s)
  then show ?case by simp
next
  case (2 env phone q l ls s)
  from "2.prems" "2.IH" show ?case
    by (auto simp add: Let_def confined_def notify_fields update_fields dict_del_modify
        split: if_splits list.splits)
qed

lemma set_password_and_security_confined:
  assumes "set_password_and_security env phone ls s = Ret (ok, m) ls' s'"
  shows "dict_del phone (accounts s') = dict_del phone (accounts s) \<and> ticks s \<le> ticks s' \<and>
         (\<not> ok \<longrightarrow> disk s' = disk s \<and> (m = CancelledSecurity \<or> m = SecuritySaveFailed))"
proof (cases "set_password_loop env phone ls s")
  case (Raise e)
  with assms show ?thesis by (simp add: set_password_and_security_def)
next
  case (Ret b1 ls1 s1)
  note r1 = this
  from set_password_loop_confined [OF r1] have c1: "confined phone s s1" .
  show ?thesis
  proof (cases b1)
    case False
    with assms r1 c1 show ?thesis
      by (auto simp add: set_password_and_security_def confined_def)
  next
    case True
    note b1 = this
    show ?thesis
    proof (cases "choose_question_loop env ls1 s1")
      case (Raise e)
      with assms r1 b1 show ?thesis by (simp add: set_password_and_security_def)
    next
      case (Ret q ls2 s2)
      note r2 = this
      from choose_question_loop_quiet [OF r2] have "quiet s1 s2" "ticks s2 = ticks s1" by simp_all
      with c1 have c2: "confined phone s s2" by (simp add: confined_def quiet_def)
      show ?thesis
      proof (cases q)
        case None
        with assms r1 b1 r2 c2 show ?thesis
          by (auto simp add: set_password_and_security_def confined_def)
      next
        case (Some qq)
        note q = this
        show ?thesis
        proof (cases "set_answer_loop env phone qq ls2 s2")
          case (Raise e)
          with assms r1 b1 r2 q show ?thesis by (simp add: set_password_and_security_def)
        next
          case (Ret b3 ls3 s3)
          note r3 = this
          from set_answer_loop_confined [OF r3] c2 have c3: "confined phone s s3"
            using confined_trans by blast
          show ?thesis
          proof (cases b3)
            case False
            with assms r1 b1 r2 q r3 c3 show ?thesis
              by (auto simp add: set_password_and_security_def confined_def)
          next
            case True
            with assms r1 b1 r2 q r3 c3 show ?thesis
              by (auto simp add: set_password_and_security_def confined_def now_def save_data_def
                  update_def dict_del_modify Let_def split: if_splits)
          qed
        qed
      qed
    qed
  qed
qed

lemma set_valid_days_failure:
  "set_valid_days env phone ls s = Ret (ok, m) ls' s' \<Longrightarrow> \<not> ok \<longrightarrow> m = CancelledValidDays"
proof (induction env phone ls s rule: set_valid_days.induct)
  case (1 env phone s)
  then show ?case by simp
next
  case (2 env phone l ls s)
  from "2.prems" "2.IH" show ?case
    by (auto simp add: Let_def now_def split: if_splits option.splits sum.splits)
qed

lemma register_account_rolls_back:
  assumes "lookup (accounts s) phone = None"
    and "register_account env phone bonus ls s = Ret (ok, m) ls' s'"
  shows "dict_del phone (accounts s') = accounts s \<and> ticks s \<le> ticks s' \<and>
         (\<not> ok \<longrightarrow> accounts s' = accounts s \<and> disk s' = disk s \<and>
            (m = CancelledValidDays \<or> m = CancelledSecurity \<or> m = SecuritySaveFailed))"
proof -
  let ?s1 = "s\<lparr>accounts := dict_set phone (new_account phone bonus) (accounts s)\<rparr>"
  have d1: "dict_del phone (accounts ?s1) = accounts s"
    using dict_del_dict_set [OF assms(1)] by simp
  show ?thesis
  proof (cases "set_valid_days env phone ls ?s1")
    case (Raise e)
    with assms(2) show ?thesis by (simp add: register_account_def)
  next
    case (Ret v ls2 s2)
    note r2 = this
    obtain ok2 m2 where v: "v = (ok2, m2)" by (cases v)
    from set_valid_days_confined [OF r2] d1
    have c2: "dict_del phone (accounts s2) = accounts s" "disk s2 = disk s" "ticks s \<le> ticks s2"
      by (simp_all add: confined_def)
    have del: "dict_del phone (dict_del phone st) = dict_del phone st" for st
      by (simp add: dict_del_def)
    note fresh = dict_del_fresh [OF assms(1)]
    show ?thesis
    proof (cases ok2)
      case False
      have "m2 = CancelledValidDays"
        using set_valid_days_failure [OF r2 [unfolded v]] False by simp
      with assms(2) r2 v False c2 del fresh show ?thesis
        by (auto simp add: register_account_def delete_account_def)
    next
      case True
      note ok2 = this
      show ?thesis
      proof (cases "set_password_and_security env phone ls2 s2")
        case (Raise e)
        with assms(2) r2 v ok2 show ?thesis by (simp add: register_account_def)
      next
        case (Ret w ls3 s3)
        note r3 = this
        obtain ok3 m3 where w: "w = (ok3, m3)" by (cases w)
        from set_password_and_security_confined [OF r3 [unfolded w]] c2
        have c3: "dict_del phone (accounts s3) = accounts s" "ticks s \<le> ticks s3"
          "\<not> ok3 \<longrightarrow> disk s3 = disk s \<and> (m3 = CancelledSecurity \<or> m3 = SecuritySaveFailed)"
          by simp_all
        from assms(2) r2 v ok2 r3 w c3 del fresh show ?thesis
          by (cases ok3) (auto simp add: register_account_def delete_account_def sync_fields)
      qed
    qed
  qed
qed

lemma register_phone_effect:
  "register_phone env ls s = Ret (ok, m) ls' s' \<Longrightarrow>
     ticks s \<le> ticks s' \<and>
     (accounts s' = accounts s \<or>
      (\<exists>phone. lookup (accounts s) phone = None \<and> dict_del phone (accounts s') = accounts s)) \<and>
     (\<not> ok \<longrightarrow> accounts s' = accounts s \<and> disk s' = disk s)"
proof (induction env ls s rule: register_phone.induct)
  case (1 env s)
  then show ?case by simp
next
  case (2 env l ls s)
  let ?phone = "strip l"
  show ?case
  proof (cases "handle_back_choice ?phone \<or> \<not> validate_phone (codes ?phone) \<or>
      lookup (accounts s) ?phone \<noteq> None \<or> find_tail (accounts s) (last4 ?phone) \<noteq> None")
    case True
    with "2.prems" "2.IH"(1,2,3) show ?thesis
      by (auto simp add: Let_def notify_fields split: if_splits option.splits)
  next
    case False
    then have f: "\<not> handle_back_choice ?phone" "validate_phone (codes ?phone)"
      "lookup (accounts s) ?phone = None" "find_tail (accounts s) (last4 ?phone) = None"
      by auto
    show ?thesis
    proof (cases "set_registration_bonus env ls s")
      case (Raise e)
      with "2.prems" f show ?thesis by (simp add: Let_def)
    next
      case (Ret b ls1 s1)
      note r1 = this
      from set_registration_bonus_quiet [OF r1]
      have q: "accounts s1 = accounts s" "disk s1 = disk s" "ticks s1 = ticks s"
        by (simp_all add: quiet_def)
      show ?thesis
      proof (cases b)
        case (Inl bonus_result)
        with "2.prems" f r1 q show ?thesis by (auto simp add: Let_def)
      next
        case (Inr bonus_amount)
        with "2.prems" f r1
        have ra: "register_account env ?phone bonus_amount ls1 s1 = Ret (ok, m) ls' s'"
          by (simp add: Let_def)
        have "lookup (accounts s1) ?phone = None" using f(3) q(1) by simp
        from register_account_rolls_back [OF this ra] q f(3) show ?thesis
          by auto
      qed
    qed
  qed
qed

text \<open>
  C4: when, after the provisional account has been created, the validity-period step
  is cancelled or the security-setup step is cancelled or fails to save, registration
  returns a failure and the store in memory is exactly the store from before: the phone
  is not in it and no account in it has the phone's last four digits, so a later
  registration of that phone passes the same checks. Nothing has reached the file.
  More generally every registration that returns a failure leaves the store and the
  file as they were.
\<close>

theorem registration_rollback:
  "(lookup (accounts s) phone = None \<and> find_tail (accounts s) (last4 phone) = None \<and>
    register_account env phone bonus ls s = Ret (False, m) ls' s' \<longrightarrow>
      accounts s' = accounts s \<and> disk s' = disk s \<and>
      lookup (accounts s') phone = None \<and> find_tail (accounts s') (last4 phone) = None \<and>
      (m = CancelledValidDays \<or> m = CancelledSecurity \<or> m = SecuritySaveFailed)) \<and>
   (register_phone env ls0 s = Ret (False, m0) ls1 s1 \<longrightarrow>
      accounts s1 = accounts s \<and> disk s1 = disk s)"
  using register_account_rolls_back [of s phone env bonus ls False m ls' s']
    register_phone_effect [of env ls0 s False m0 ls1 s1]
  by auto

lemma sample_fresh:
  "lookup (accounts (sample_sys b st x)) ''13900005678'' = None"
  "find_tail (accounts (sample_sys b st x)) (last4 ''13900005678'') = None"
  by (simp_all add: sample_sys_def sample_account_def empty_sys_def lookup_def find_tail_def last4_def)

lemma sample_register_cancelled:
  "\<exists>s'. register_account (plain_env True) ''13900005678'' (Fin 50)
          [''30'', ''1234'', ''1234'', ''1'', ''0'', ''next''] (sample_sys (Fin 50) Active 63902592000000000) =
        Ret (False, CancelledSecurity) [''next''] s'"
  by (simp add: run_eval register_eval text_eval plain_eval sample_sys_def sample_account_def
      empty_sys_def day_us_def)

lemma sample_register_phone_cancelled:
  "\<exists>s'. register_phone (plain_env True) [''13900005678'', '''', ''0'', ''next'']
          (sample_sys (Fin 50) Active 63902592000000000) =
        Ret (False, CancelledValidDays) [''next''] s'"
  by (simp add: run_eval register_eval text_eval plain_eval sample_sys_def sample_account_def
      empty_sys_def day_us_def)

theorem registration_rollback_witness:
  "(\<exists>s'. register_account (plain_env True) ''13900005678'' (Fin 50)
          [''30'', ''1234'', ''1234'', ''1'', ''0'', ''next''] (sample_sys (Fin 50) Active 63902592000000000) =
        Ret (False, CancelledSecurity) [''next''] s' \<and>
        accounts s' = [(''13800001234'', sample_account (Fin 50) Active 63902592000000000)] \<and>
        lookup (accounts s') ''13900005678'' = None \<and>
        find_tail (accounts s') (last4 ''13900005678'') = None) \<and>
   (\<exists>s'. register_phone (plain_env True) [''13900005678'', '''', ''0'', ''next'']
          (sample_sys (Fin 50) Active 63902592000000000) =
        Ret (False, CancelledValidDays) [''next''] s' \<and>
        accounts s' = [(''13800001234'', sample_account (Fin 50) Active 63902592000000000)])"
proof -
  let ?S = "sample_sys (Fin 50) Active 63902592000000000"
  have acc: "accounts ?S = [(''13800001234'', sample_account (Fin 50) Active 63902592000000000)]"
    by (simp add: sample_sys_def empty_sys_def)
  from sample_register_cancelled obtain s' where
    a: "register_account (plain_env True) ''13900005678'' (Fin 50)
          [''30'', ''1234'', ''1234'', ''1'', ''0'', ''next''] ?S =
        Ret (False, CancelledSecurity) [''next''] s'"
    by blast
  from sample_register_phone_cancelled obtain s1 where
    b: "register_phone (plain_env True) [''13900005678'', '''', ''0'', ''next''] ?S =
        Ret (False, CancelledValidDays) [''next''] s1"
    by blast
  from registration_rollback [of ?S "''13900005678''" "plain_env True" "Fin 50"
      "[''30'', ''1234'', ''1234'', ''1'', ''0'', ''next'']" CancelledSecurity "[''next'']" s'
      "[''13900005678'', '''', ''0'', ''next'']" CancelledValidDays "[''next'']" s1]
    a b sample_fresh [of "Fin 50" Active 63902592000000000] acc
  have "accounts s' = [(''13800001234'', sample_account (Fin 50) Active 63902592000000000)] \<and>
        lookup (accounts s') ''13900005678'' = None \<and>
        find_tail (accounts s') (last4 ''13900005678'') = None \<and>
        accounts s1 = [(''13800001234'', sample_account (Fin 50) Active 63902592000000000)]"
    by (simp del: register_phone.simps)
  with a b show ?thesis by blast
qed

subsection \<open>How an account comes to be expired\<close>

lemma steady_refl: "steady env s s"
  by (auto simp add: steady_def)

lemma steady_trans:
  assumes "steady env s s1" and "steady env s1 s2"
  shows "steady env s s2"
  unfolding steady_def
proof (intro conjI allI impI)
  show "ticks s \<le> ticks s2" using assms by (simp add: steady_def)
next
  fix phone a
  assume a: "lookup (accounts s) phone = Some a"
  with assms(1) obtain a1 where a1: "lookup (accounts s1) phone = Some a1"
    "expiry_time a1 = expiry_time a"
    "status a1 = status a \<or> (status a1 = Expired \<and>
       (\<exists>x n. expiry_time a = Some x \<and> ticks s \<le> n \<and> n < ticks s1 \<and> is_expired (clock env n) x))"
    unfolding steady_def by blast
  from a1(1) assms(2) obtain a2 where a2: "lookup (accounts s2) phone = Some a2"
    "expiry_time a2 = expiry_time a1"
    "status a2 = status a1 \<or> (status a2 = Expired \<and>
       (\<exists>x n. expiry_time a1 = Some x \<and> ticks s1 \<le> n \<and> n < ticks s2 \<and> is_expired (clock env n) x))"
    unfolding steady_def by blast
  have t: "ticks s \<le> ticks s1" "ticks s1 \<le> ticks s2" using assms by (simp_all add: steady_def)
  have "status a2 = status a \<or> (status a2 = Expired \<and>
       (\<exists>x n. expiry_time a = Some x \<and> ticks s \<le> n \<and> n < ticks s2 \<and> is_expired (clock env n) x))"
  proof (cases "status a2 = status a")
    case True
    then show ?thesis by simp
  next
    case False
    show ?thesis
    proof (cases "status a2 = status a1")
      case True
      with False a1(3) obtain x n where "status a1 = Expired" "expiry_time a = Some x"
        "ticks s \<le> n" "n < ticks s1" "is_expired (clock env n) x" by auto
      with True t show ?thesis by (metis less_le_trans)
    next
      case False
      with a2(3) obtain x n where "status a2 = Expired" "expiry_time a1 = Some x"
        "ticks s1 \<le> n" "n < ticks s2" "is_expired (clock env n) x" by auto
      with a1(2) t show ?thesis by (metis le_trans)
    qed
  qed
  with a2(1,2) a1(2)
  show "\<exists>a'. lookup (accounts s2) phone = Some a' \<and> expiry_time a' = expiry_time a \<and>
            (status a' = status a \<or>
             (status a' = Expired \<and>
              (\<exists>x n. expiry_time a = Some x \<and> ticks s \<le> n \<and> n < ticks s2 \<and>
                 is_expired (clock env n) x)))"
    by auto
qed

lemma steady_same: "accounts s' = accounts s \<Longrightarrow> ticks s \<le> ticks s' \<Longrightarrow> steady env s s'"
  by (auto simp add: steady_def)

lemma steady_modify:
  assumes "accounts s' = modify phone f (accounts s)" and "ticks s \<le> ticks s'"
    and "\<And>a. status (f a) = status a \<and> expiry_time (f a) = expiry_time a"
  shows "steady env s s'"
  using assms by (auto simp add: steady_def lookup_modify)

lemma steady_notify: "steady env (notify n s) s' \<Longrightarrow> steady env s s'"
  by (simp add: steady_def notify_fields)

lemma modify_modify: "modify phone f (modify phone g st) = modify phone (\<lambda>a. f (g a)) st"
  by (induction st) (auto simp add: modify_def)

lemma check_account_status_steady:
  assumes "check_account_status env phone ls s = Ret r ls' s'"
  shows "steady env s s'"
proof (cases "lookup (accounts s) phone")
  case None
  with assms show ?thesis by (simp add: check_account_status_def)
next
  case (Some info)
  show ?thesis
  proof (cases "status info = Expired")
    case True
    with assms Some show ?thesis by (auto simp add: check_account_status_def steady_refl)
  next
    case False
    note ne = this
    show ?thesis
    proof (cases "expiry_time info")
      case None
      with assms Some ne show ?thesis by (simp add: check_account_status_def)
    next
      case (Some x)
      note x = this
      show ?thesis
      proof (cases "is_expired (clock env (ticks s)) x")
        case False
        with assms \<open>lookup (accounts s) phone = Some info\<close> ne x show ?thesis
          by (auto simp add: check_account_status_def now_def intro: steady_same)
      next
        case True
        with assms \<open>lookup (accounts s) phone = Some info\<close> ne x
        have s': "accounts s' = modify phone (\<lambda>a. a\<lparr>status := Expired\<rparr>) (accounts s)"
          "ticks s' = Suc (ticks s)"
          by (auto simp add: check_account_status_def now_def save_data_def update_def Let_def)
        show ?thesis
          unfolding steady_def
        proof (intro conjI allI impI)
          show "ticks s \<le> ticks s'" using s'(2) by simp
        next
          fix k a
          assume a: "lookup (accounts s) k = Some a"
          show "\<exists>a'. lookup (accounts s') k = Some a' \<and> expiry_time a' = expiry_time a \<and>
            (status a' = status a \<or>
             (status a' = Expired \<and>
              (\<exists>x n. expiry_time a = Some x \<and> ticks s \<le> n \<and> n < ticks s' \<and>
                 is_expired (clock env n) x)))"
          proof (cases "k = phone")
            case False
            with a s' show ?thesis by (simp add: lookup_modify)
          next
            case True
            with a \<open>lookup (accounts s) phone = Some info\<close> have "a = info" by simp
            with True a s' x \<open>is_expired (clock env (ticks s)) x\<close> show ?thesis
              by (auto simp add: lookup_modify)
          qed
        qed
      qed
    qed
  qed
qed

lemma password_attempts_steady:
  "password_attempts env phone n ls s = Ret r ls' s' \<Longrightarrow> steady env s s'"
proof (induction env phone n ls s rule: password_attempts.induct)
  case (1 env phone ls s)
  then show ?case by (auto simp add: steady_refl)
next
  case (2 env phone n s)
  then show ?case by simp
next
  case (3 env phone n pw ls s)
  from "3.prems" "3.IH" show ?case
    by (auto simp add: steady_refl notify_fields split: if_splits option.splits
        intro: steady_same dest: steady_notify)
qed

lemma answer_attempts_steady:
  "answer_attempts env phone n ls s = Ret r ls' s' \<Longrightarrow> steady env s s'"
proof (induction env phone n ls s rule: answer_attempts.induct)
  case (1 env phone ls s)
  then show ?case by (auto simp add: steady_refl)
next
  case (2 env phone n s)
  then show ?case by simp
next
  case (3 env phone n l ls s)
  from "3.prems" "3.IH" show ?case
    by (auto simp add: Let_def steady_refl notify_fields split: if_splits option.splits
        intro: steady_same dest: steady_notify)
qed

lemma authenticate_with_password_steady:
  assumes "authenticate_with_password env phone ls s = Ret r ls' s'"
  shows "steady env s s'"
proof (cases "check_account_status env phone ls s")
  case (Raise e)
  with assms show ?thesis by (simp add: authenticate_with_password_def)
next
  case (Ret v ls1 s1)
  from check_account_status_steady [OF Ret] have c: "steady env s s1" .
  obtain ok m where v: "v = (ok, m)" by (cases v)
  show ?thesis
  proof (cases ok)
    case False
    with assms Ret v c show ?thesis by (auto simp add: authenticate_with_password_def)
  next
    case True
    with assms Ret v have "password_attempts env phone MAX_AUTH_ATTEMPTS ls1 s1 = Ret r ls' s'"
      by (simp add: authenticate_with_password_def)
    from password_attempts_steady [OF this] c show ?thesis using steady_trans by blast
  qed
qed

lemma steady_touch:
  assumes "\<And>a. status (f a) = status a \<and> expiry_time (f a) = expiry_time a"
    and "\<And>a. status (g a) = status a \<and> expiry_time (g a) = expiry_time a"
    and "accounts s' = modify phone f (modify phone g (accounts s))" and "ticks s \<le> ticks s'"
  shows "steady env s s'"
  using assms by (intro steady_modify [where f = "\<lambda>a. f (g a)"]) (simp_all add: modify_modify)

lemma recharge_amount_steady:
  "recharge_amount env phone ls s = Ret r ls' s' \<Longrightarrow> steady env s s'"
proof (induction env phone ls s rule: recharge_amount.induct)
  case (1 env phone s)
  then show ?case by simp
next
  case (2 env phone l ls s)
  show ?case
  proof (cases "handle_back_choice (strip l)")
    case True
    with "2.prems" show ?thesis by (auto simp add: Let_def steady_refl)
  next
    case False
    note nb = this
    show ?thesis
    proof (cases "float_of env (strip l)")
      case None
      with "2.prems" "2.IH"(1) nb show ?thesis
        by (auto simp add: Let_def dest: steady_notify)
    next
      case (Some a)
      note a = this
      show ?thesis
      proof (cases "fle a (Fin 0)")
        case True
        with "2.prems" "2.IH"(2) nb a show ?thesis
          by (auto simp add: Let_def dest: steady_notify)
      next
        case False
        note pos = this
        show ?thesis
        proof (cases "lookup (accounts s) phone")
          case None
          with "2.prems" nb a pos show ?thesis by (simp add: Let_def)
        next
          case (Some info)
          let ?t = "clock env (ticks s)"
          show ?thesis
          proof (cases "save_ok env (saves s)")
            case True
            with "2.prems" nb a pos Some
            have "accounts s' = modify phone (\<lambda>a. a\<lparr>last_modified := Some ?t\<rparr>)
                    (modify phone (\<lambda>b. b\<lparr>balance := fadd (balance b) a\<rparr>) (accounts s))"
              "ticks s \<le> ticks s'"
              by (auto simp add: Let_def now_def save_data_def update_def sync_to_github_def)
            then show ?thesis by (intro steady_touch) simp_all
          next
            case False
            with "2.prems" nb a pos Some
            have "accounts s' = modify phone (\<lambda>a. a\<lparr>balance := balance info\<rparr>)
                    (modify phone (\<lambda>b. (b\<lparr>balance := fadd (balance b) a\<rparr>)\<lparr>last_modified := Some ?t\<rparr>) (accounts s))"
              "ticks s \<le> ticks s'"
              by (auto simp add: Let_def now_def save_data_def update_def modify_modify)
            then show ?thesis by (intro steady_touch) simp_all
          qed
        qed
      qed
    qed
  qed
qed

lemma deduct_amount_steady:
  "deduct_amount env phone ls s = Ret r ls' s' \<Longrightarrow> steady env s s'"
proof (induction env phone ls s rule: deduct_amount.induct)
  case (1 env phone s)
  then show ?case by simp
next
  case (2 env phone l ls s)
  show ?case
  proof (cases "handle_back_choice (strip l)")
    case True
    with "2.prems" show ?thesis by (auto simp add: Let_def steady_refl)
  next
    case False
    note nb = this
    show ?thesis
    proof (cases "float_of env (strip l)")
      case None
      with "2.prems" "2.IH"(1) nb show ?thesis
        by (auto simp add: Let_def dest: steady_notify)
    next
      case (Some a)
      note a = this
      show ?thesis
      proof (cases "fle a (Fin 0)")
        case True
        with "2.prems" "2.IH"(2) nb a show ?thesis
          by (auto simp add: Let_def dest: steady_notify)
      next
        case False
        note pos = this
        show ?thesis
        proof (cases "lookup (accounts s) phone")
          case None
          with "2.prems" nb a pos show ?thesis by (simp add: Let_def)
        next
          case (Some info)
          note info = this
          let ?t = "clock env (ticks s)"
          show ?thesis
          proof (cases "flt (balance info) a")
            case True
            with "2.prems" "2.IH"(3) nb a pos info show ?thesis
              by (auto simp add: Let_def dest: steady_notify)
          next
            case False
            note enough = this
            show ?thesis
            proof (cases "save_ok env (saves s)")
              case True
              with "2.prems" nb a pos info enough
              have "accounts s' = modify phone (\<lambda>a. a\<lparr>last_modified := Some ?t\<rparr>)
                      (modify phone (\<lambda>b. b\<lparr>balance := fsub (balance b) a\<rparr>) (accounts s))"
                "ticks s \<le> ticks s'"
                by (auto simp add: Let_def now_def save_data_def update_def sync_to_github_def)
              then show ?thesis by (intro steady_touch) simp_all
            next
              case False
              with "2.prems" nb a pos info enough
              have "accounts s' = modify phone (\<lambda>a. a\<lparr>balance := balance info\<rparr>)
                      (modify phone (\<lambda>b. (b\<lparr>balance := fsub (balance b) a\<rparr>)\<lparr>last_modified := Some ?t\<rparr>) (accounts s))"
                "ticks s \<le> ticks s'"
                by (auto simp add: Let_def now_def save_data_def update_def modify_modify)
              then show ?thesis by (intro steady_touch) simp_all
            qed
          qed
        qed
      qed
    qed
  qed
qed

lemma new_password_loop_steady:
  "new_password_loop env phone ls s = Ret r ls' s' \<Longrightarrow> steady env s s'"
proof (induction env phone ls s rule: new_password_loop.induct)
  case (1 env phone s)
  then show ?case by simp
next
  case (2 env phone pw ls s)
  show ?case
  proof (cases "handle_back_choice pw")
    case True
    with "2.prems" show ?thesis by (auto simp add: steady_refl)
  next
    case False
    note nb = this
    show ?thesis
    proof (cases "validate_password pw")
      case False
      with "2.prems" "2.IH"(1) nb show ?thesis
        by (auto dest: steady_notify)
    next
      case True
      note ok = this
      show ?thesis
      proof (cases ls)
        case Nil
        with "2.prems" nb ok show ?thesis by simp
      next
        case (Cons c ls2)
        show ?thesis
        proof (cases "pw = c")
          case False
          with "2.prems" "2.IH"(2) nb ok Cons show ?thesis
            by (auto dest: steady_notify)
        next
          case True
          with "2.prems" nb ok Cons
          have "accounts s' = modify phone (\<lambda>a. a\<lparr>last_modified := Some (clock env (ticks s))\<rparr>)
                  (modify phone (\<lambda>a. a\<lparr>password := Some (hash_password env pw)\<rparr>) (accounts s))"
            "ticks s \<le> ticks s'"
            by (auto simp add: Let_def now_def save_data_def update_def split: if_splits)
          then show ?thesis by (intro steady_touch) simp_all
        qed
      qed
    qed
  qed
qed

lemma recharge_steady: "recharge env ls s = Ret r ls' s' \<Longrightarrow> steady env s s'"
proof (induction env ls s rule: recharge.induct)
  case (1 env s)
  then show ?case by simp
next
  case (2 env l ls s)
  show ?case
  proof (cases "handle_back_choice (strip l)")
    case True
    with "2.prems" show ?thesis by (auto simp add: Let_def steady_refl)
  next
    case False
    note nb = this
    show ?thesis
    proof (cases "find_account s (strip l)")
      case (Inl message)
      with "2.prems" "2.IH" nb show ?thesis
        by (auto simp add: Let_def dest: steady_notify)
    next
      case (Inr phone)
      note ph = this
      show ?thesis
      proof (cases "authenticate_with_password env phone ls s")
        case (Raise e)
        with "2.prems" nb ph show ?thesis by (simp add: Let_def)
      next
        case (Ret v ls1 s1)
        from authenticate_with_password_steady [OF Ret] have c: "steady env s s1" .
        obtain ok m where v: "v = (ok, m)" by (cases v)
        show ?thesis
        proof (cases ok)
          case False
          with "2.prems" nb ph Ret v c show ?thesis by (auto simp add: Let_def)
        next
          case True
          with "2.prems" nb ph Ret v have "recharge_amount env phone ls1 s1 = Ret r ls' s'"
            by (simp add: Let_def)
          from recharge_amount_steady [OF this] c show ?thesis using steady_trans by blast
        qed
      qed
    qed
  qed
qed

lemma deduct_steady: "deduct env ls s = Ret r ls' s' \<Longrightarrow> steady env s s'"
proof (induction env ls s rule: deduct.induct)
  case (1 env s)
  then show ?case by simp
next
  case (2 env l ls s)
  show ?case
  proof (cases "handle_back_choice (strip l)")
    case True
    with "2.prems" show ?thesis by (auto simp add: Let_def steady_refl)
  next
    case False
    note nb = this
    show ?thesis
    proof (cases "find_account s (strip l)")
      case (Inl message)
      with "2.prems" "2.IH" nb show ?thesis
        by (auto simp add: Let_def dest: steady_notify)
    next
      case (Inr phone)
      note ph = this
      show ?thesis
      proof (cases "authenticate_with_password env phone ls s")
        case (Raise e)
        with "2.prems" nb ph show ?thesis by (simp add: Let_def)
      next
        case (Ret v ls1 s1)
        from authenticate_with_password_steady [OF Ret] have c: "steady env s s1" .
        obtain ok m where v: "v = (ok, m)" by (cases v)
        show ?thesis
        proof (cases ok)
          case False
          with "2.prems" nb ph Ret v c show ?thesis by (auto simp add: Let_def)
        next
          case True
          with "2.prems" nb ph Ret v have "deduct_amount env phone ls1 s1 = Ret r ls' s'"
            by (simp add: Let_def)
          from deduct_amount_steady [OF this] c show ?thesis using steady_trans by blast
        qed
      qed
    qed
  qed
qed

lemma reset_password_steady:
  assumes "reset_password env phone ls s = Ret r ls' s'"
  shows "steady env s s'"
proof (cases "lookup (accounts s) phone")
  case None
  with assms show ?thesis
    by (simp add: reset_password_def authenticate_with_security_question_def)
next
  case (Some info)
  show ?thesis
  proof (cases "answer_attempts env phone MAX_AUTH_ATTEMPTS ls s")
    case (Raise e)
    with assms Some show ?thesis
      by (simp add: reset_password_def authenticate_with_security_question_def)
  next
    case (Ret v ls1 s1)
    from answer_attempts_steady [OF Ret] have c: "steady env s s1" .
    obtain ok m where v: "v = (ok, m)" by (cases v)
    show ?thesis
    proof (cases ok)
      case False
      with assms Some Ret v c show ?thesis
        by (auto simp add: reset_password_def authenticate_with_security_question_def)
    next
      case True
      with assms Some Ret v have "new_password_loop env phone ls1 s1 = Ret r ls' s'"
        by (simp add: reset_password_def authenticate_with_security_question_def)
      from new_password_loop_steady [OF this] c show ?thesis using steady_trans by blast
    qed
  qed
qed

lemma system_reset_password_steady:
  "system_reset_password env ls s = Ret r ls' s' \<Longrightarrow> steady env s s'"
proof (induction env ls s rule: system_reset_password.induct)
  case (1 env s)
  then show ?case by simp
next
  case (2 env l ls s)
  show ?case
  proof (cases "handle_back_choice (strip l)")
    case True
    with "2.prems" show ?thesis by (auto simp add: Let_def steady_refl)
  next
    case False
    note nb = this
    show ?thesis
    proof (cases "find_account s (strip l)")
      case (Inl message)
      with "2.prems" "2.IH" nb show ?thesis
        by (auto simp add: Let_def dest: steady_notify)
    next
      case (Inr phone)
      note ph = this
      show ?thesis
      proof (cases "reset_password env phone ls s")
        case (Raise e)
        with "2.prems" nb ph show ?thesis by (simp add: Let_def)
      next
        case (Ret v ls1 s1)
        from reset_password_steady [OF Ret] have c: "steady env s s1" .
        have "steady env s1 (sync_to_github env s1)"
          by (intro steady_same) (simp_all add: sync_fields)
        with c have "steady env s (sync_to_github env s1)" using steady_trans by blast
        with "2.prems" nb ph Ret c show ?thesis
          by (auto simp add: Let_def split: if_splits prod.splits)
      qed
    qed
  qed
qed

lemma format_remaining_time_steady: "steady env s (snd (format_remaining_time env x s))"
  by (intro steady_same) (simp_all add: format_remaining_time_def now_def Let_def)

lemma get_balance_steady: "get_balance env ls s = Ret r ls' s' \<Longrightarrow> steady env s s'"
proof (induction env ls s rule: get_balance.induct)
  case (1 env s)
  then show ?case by simp
next
  case (2 env l ls s)
  show ?case
  proof (cases "handle_back_choice (strip l)")
    case True
    with "2.prems" show ?thesis by (auto simp add: Let_def steady_refl)
  next
    case False
    note nb = this
    show ?thesis
    proof (cases "find_account s (strip l)")
      case (Inl message)
      with "2.prems" "2.IH" nb show ?thesis
        by (auto simp add: Let_def dest: steady_notify)
    next
      case (Inr phone)
      with "2.prems" nb format_remaining_time_steady show ?thesis
        by (auto simp add: Let_def steady_refl split: option.splits prod.splits)
           (metis snd_conv)
    qed
  qed
qed

lemma list_accounts_steady: "steady env s (snd (list_accounts env st s))"
proof (induction st arbitrary: s)
  case Nil
  show ?case by (simp add: steady_refl)
next
  case (Cons e st)
  obtain phone info where e: "e = (phone, info)" by (cases e)
  have f: "steady env s (snd (list_accounts env st (snd (format_remaining_time env x s))))" for x
    using steady_trans [OF format_remaining_time_steady Cons.IH] .
  from e f Cons.IH show ?case
    by (auto simp add: Let_def split_beta split: option.splits)
qed

lemma format_remaining_time_ticks: "ticks s \<le> ticks (snd (format_remaining_time env x s))"
  by (simp add: format_remaining_time_def now_def Let_def)

lemma scan_expiry_ticks: "ticks s \<le> ticks (snd (scan_expiry env st r s))"
proof (induction st arbitrary: r s)
  case Nil
  show ?case by simp
next
  case (Cons e st)
  obtain phone info where e: "e = (phone, info)" by (cases e)
  show ?case
  proof (cases "expiry_time info")
    case None
    with e Cons.IH show ?thesis by simp
  next
    case (Some x)
    have a: "ticks s \<le> ticks (snd (scan_expiry env st r' (s\<lparr>ticks := k\<rparr>)))" if "ticks s \<le> k" for r' k
      using Cons.IH [where r = r' and s = "s\<lparr>ticks := k\<rparr>"] that by simp
    have b: "ticks s \<le> ticks (snd (scan_expiry env st r'
        (snd (format_remaining_time env x (s\<lparr>ticks := k\<rparr>)))))" if "ticks s \<le> k" for r' k
      using Cons.IH [where r = r' and s = "snd (format_remaining_time env x (s\<lparr>ticks := k\<rparr>))"]
        format_remaining_time_ticks [of "s\<lparr>ticks := k\<rparr>" env x] that
      by simp
    show ?thesis
      using e Some a b
      by (simp add: now_def Let_def split_beta)
  qed
qed

lemma scan_expiry_steady: "steady env s (snd (scan_expiry env st r s))"
  using scan_expiry_quiet [of s env st r] scan_expiry_ticks [of s env st r]
  by (intro steady_same) (simp_all add: quiet_def)

lemma steady_expires: "steady env s s' \<Longrightarrow> expires_by_clock_only env s s'"
  unfolding steady_def expires_by_clock_only_def by (metis option.inject)

lemma register_phone_expires:
  assumes "register_phone env ls s = Ret r ls' s'"
  shows "expires_by_clock_only env s s'"
proof -
  obtain ok m where r: "r = (ok, m)" by (cases r)
  from register_phone_effect [OF assms [unfolded r]]
  have "accounts s' = accounts s \<or>
      (\<exists>phone. lookup (accounts s) phone = None \<and> dict_del phone (accounts s') = accounts s)"
    by simp
  then have same: "lookup (accounts s') k = Some a" if "lookup (accounts s) k = Some a" for k a
  proof
    assume "accounts s' = accounts s"
    with that show ?thesis by simp
  next
    assume "\<exists>phone. lookup (accounts s) phone = None \<and> dict_del phone (accounts s') = accounts s"
    then obtain phone where p: "lookup (accounts s) phone = None"
      "dict_del phone (accounts s') = accounts s" by blast
    with that have "k \<noteq> phone" by auto
    then have "lookup (accounts s') k = lookup (dict_del phone (accounts s')) k"
      by (simp add: lookup_dict_del)
    with p(2) that show ?thesis by simp
  qed
  show ?thesis
    unfolding expires_by_clock_only_def using same by fastforce
qed

lemma menu_step_expires:
  assumes "menu_step env choice ls s = Ret out ls' s'"
  shows "expires_by_clock_only env s s'"
proof -
  have lift: "lift_outcome r = Ret out ls' s' \<Longrightarrow> \<exists>v. r = Ret v ls' s'" for r
    by (cases r) (auto simp add: lift_outcome_def)
  consider (reg) "choice = ''1''" | (rec) "choice = ''2''" | (ded) "choice = ''3''"
    | (bal) "choice = ''4''" | (res) "choice = ''5''" | (lst) "choice = ''6''"
    | (chk) "choice = ''7''"
    | (other) "choice \<noteq> ''1''" "choice \<noteq> ''2''" "choice \<noteq> ''3''" "choice \<noteq> ''4''"
        "choice \<noteq> ''5''" "choice \<noteq> ''6''" "choice \<noteq> ''7''"
    by blast
  then show ?thesis
  proof cases
    case reg
    with assms have "lift_outcome (register_phone env ls s) = Ret out ls' s'"
      by (simp add: menu_step_def)
    from lift [OF this] obtain v where "register_phone env ls s = Ret v ls' s'"
      by blast
    then show ?thesis by (rule register_phone_expires)
  next
    case rec
    with assms have "lift_outcome (recharge env ls s) = Ret out ls' s'"
      by (simp add: menu_step_def)
    from lift [OF this] obtain v where "recharge env ls s = Ret v ls' s'"
      by blast
    then show ?thesis using recharge_steady steady_expires by blast
  next
    case ded
    with assms have "lift_outcome (deduct env ls s) = Ret out ls' s'"
      by (simp add: menu_step_def)
    from lift [OF this] obtain v where "deduct env ls s = Ret v ls' s'"
      by blast
    then show ?thesis using deduct_steady steady_expires by blast
  next
    case bal
    with assms have "lift_outcome (get_balance env ls s) = Ret out ls' s'"
      by (simp add: menu_step_def)
    from lift [OF this] obtain v where "get_balance env ls s = Ret v ls' s'"
      by blast
    then show ?thesis using get_balance_steady steady_expires by blast
  next
    case res
    with assms have "lift_outcome (system_reset_password env ls s) = Ret out ls' s'"
      by (simp add: menu_step_def)
    from lift [OF this] obtain v where "system_reset_password env ls s = Ret v ls' s'"
      by blast
    then show ?thesis using system_reset_password_steady steady_expires by blast
  next
    case lst
    with assms have "s' = snd (list_accounts env (accounts s) s)"
      by (auto simp add: menu_step_def list_all_accounts_def split_beta)
    then show ?thesis using list_accounts_steady steady_expires by blast
  next
    case chk
    with assms have "s' = snd (scan_expiry env (accounts s)
        \<lparr>expired_count = 0, expiring_count = 0, report_lines = []\<rparr> s)"
      by (auto simp add: menu_step_def check_expired_accounts_def split_beta)
    then show ?thesis using scan_expiry_steady steady_expires by blast
  next
    case other
    with assms have "s' = s" by (simp add: menu_step_def)
    then show ?thesis using steady_refl steady_expires by blast
  qed
qed

text \<open>
  C9: for an account whose status is active and whose expiry time the clock has passed,
  password authentication fails with the expired result without prompting; it sets the
  status to expired in memory and calls the save, which writes that status to the file
  (when the write succeeds). And whatever the operator chooses in the menu and types
  afterwards, an account that was not expired before the operation and is expired after
  it had an expiry time that a reading of the clock taken during the operation had
  passed: no input sets the status to expired directly.
\<close>

theorem lazy_expiry_transition:
  "(lookup (accounts s) phone = Some info \<and> status info = Active \<and> expiry_time info = Some x \<and>
    is_expired (clock env (ticks s)) x \<longrightarrow>
      (\<exists>s'. authenticate_with_password env phone ls s = Ret (False, AccountExpired) ls s' \<and>
            lookup (accounts s') phone = Some (info\<lparr>status := Expired\<rparr>) \<and>
            saves s' = Suc (saves s) \<and>
            (save_ok env (saves s) \<longrightarrow> disk s' = accounts s'))) \<and>
   (menu_step env choice ls0 s = Ret out ls1 s1 \<longrightarrow> expires_by_clock_only env s s1)"
proof (intro conjI impI)
  assume a: "lookup (accounts s) phone = Some info \<and> status info = Active \<and>
    expiry_time info = Some x \<and> is_expired (clock env (ticks s)) x"
  then have "status info \<noteq> Expired" by simp
  from authenticate_expires [OF _ this, of s phone x env ls] a
  show "\<exists>s'. authenticate_with_password env phone ls s = Ret (False, AccountExpired) ls s' \<and>
            lookup (accounts s') phone = Some (info\<lparr>status := Expired\<rparr>) \<and>
            saves s' = Suc (saves s) \<and>
            (save_ok env (saves s) \<longrightarrow> disk s' = accounts s')"
    by (simp add: lookup_modify)
next
  assume "menu_step env choice ls0 s = Ret out ls1 s1"
  then show "expires_by_clock_only env s s1" by (rule menu_step_expires)
qed

lemma sample_menu_recharge:
  "\<exists>s1. menu_step (plain_env True) ''2'' [''1234'', ''next''] (sample_sys (Fin 50) Active 63800000000000000) =
     Ret (Outcome (False, AccountExpired)) [''next''] s1 \<and>
     map_option status (lookup (accounts s1) ''13800001234'') = Some Expired"
  by (simp add: menu_step_def lift_outcome_def run_eval text_eval plain_env_def sample_sys_def
      sample_account_def empty_sys_def day_us_def)

theorem lazy_expiry_transition_witness:
  "(\<exists>s'. authenticate_with_password (plain_env True) ''13800001234'' [''next'']
           (sample_sys (Fin 50) Active 63800000000000000) = Ret (False, AccountExpired) [''next''] s' \<and>
         map_option status (lookup (accounts s') ''13800001234'') = Some Expired \<and>
         disk s' = accounts s') \<and>
   (\<exists>s1. menu_step (plain_env True) ''2'' [''1234'', ''next''] (sample_sys (Fin 50) Active 63800000000000000) =
           Ret (Outcome (False, AccountExpired)) [''next''] s1 \<and>
         map_option status (lookup (accounts s1) ''13800001234'') = Some Expired \<and>
         expires_by_clock_only (plain_env True) (sample_sys (Fin 50) Active 63800000000000000) s1)"
proof -
  let ?S = "sample_sys (Fin 50) Active 63800000000000000"
  let ?A = "sample_account (Fin 50) Active 63800000000000000"
  have h: "status ?A = Active" "expiry_time ?A = Some 63800000000000000"
    "is_expired (clock (plain_env True) (ticks ?S)) 63800000000000000" "save_ok (plain_env True) (saves ?S)"
    by (simp_all add: sample_account_def sample_sys_def empty_sys_def plain_env_def is_expired_def)
  from sample_menu_recharge obtain s1 where
    m: "menu_step (plain_env True) ''2'' [''1234'', ''next''] ?S =
          Ret (Outcome (False, AccountExpired)) [''next''] s1"
       "map_option status (lookup (accounts s1) ''13800001234'') = Some Expired"
    by blast
  note T = lazy_expiry_transition [of ?S "''13800001234''" ?A 63800000000000000 "plain_env True" "[''next'']"
      "''2''" "[''1234'', ''next'']" "Outcome (False, AccountExpired)" "[''next'']" s1]
  from T sample_lookup [of "Fin 50" Active 63800000000000000] h
  have A: "\<exists>s'. authenticate_with_password (plain_env True) ''13800001234'' [''next''] ?S =
           Ret (False, AccountExpired) [''next''] s' \<and>
         map_option status (lookup (accounts s') ''13800001234'') = Some Expired \<and>
         disk s' = accounts s'"
    by auto
  from T m(1) have "expires_by_clock_only (plain_env True) ?S s1" by blast
  with A m show ?thesis by blast
qed

end
